theory Spec2Isabelle
  imports
    Complex_Main
    "HOL-Library.Sublist"
    "HOL-Library.Char_ord"
    "HOL-Library.List_Lexorder"
    "HOL-Library.Product_Lexorder"
begin

section \<open>Python values used by the pipeline\<close>

text \<open>
  A Python \<open>str\<close> is modelled as a \<open>string\<close> whose characters are the code points
  0..255. A \<open>float\<close> score is modelled by the real number it denotes; the pipeline only
  compares scores. Tuples \<open>(score, text)\<close> are pairs, compared lexicographically as
  Python compares tuples; strings are compared by code point.
\<close>

type_synonym scored = "real \<times> string"

datatype pyval = PyFloat real | PyStr string

text \<open>The items of the tuple \<open>(score, text)\<close>, as iterated by \<open>element in i\<close>.\<close>

fun tuple_items :: "scored \<Rightarrow> pyval list" where
  "tuple_items (score, text) = [PyFloat score, PyStr text]"

text \<open>\<open>str.isspace\<close> on one character (code points below 256).\<close>

definition isspace :: "char \<Rightarrow> bool" where
  "isspace c \<longleftrightarrow> c \<in> {CHR 0x09, CHR 0x0A, CHR 0x0B, CHR 0x0C, CHR 0x0D,
                      CHR 0x1C, CHR 0x1D, CHR 0x1E, CHR 0x1F, CHR 0x20, CHR 0x85, CHR 0xA0}"

text \<open>\<open>str.strip()\<close>: leading and trailing whitespace removed.\<close>

definition strip :: "string \<Rightarrow> string" where
  "strip s = rev (dropWhile isspace (rev (dropWhile isspace s)))"

text \<open>\<open>s.replace(old, new)\<close> for one-character \<open>old\<close> and \<open>new\<close>.\<close>

definition replace_char :: "char \<Rightarrow> char \<Rightarrow> string \<Rightarrow> string" where
  "replace_char old new s = map (\<lambda>c. if c = old then new else c) s"

text \<open>\<open>sub in s\<close> on strings: \<open>sub\<close> occurs in \<open>s\<close> as a contiguous substring.\<close>

fun str_contains :: "string \<Rightarrow> string \<Rightarrow> bool" where
  "str_contains sub [] \<longleftrightarrow> sub = []"
| "str_contains sub (c # s) \<longleftrightarrow> prefix sub (c # s) \<or> str_contains sub s"

text \<open>\<open>list.sort(reverse=True)\<close>: the list is reversed, sorted stably in ascending order,
  and reversed again.\<close>

definition sort_reverse :: "'a::linorder list \<Rightarrow> 'a list" where
  "sort_reverse xs = rev (sort (rev xs))"

section \<open>Helper functions\<close>

text \<open>\<open>Helper_functions.check_presence\<close>: \<open>element in i\<close> for some row \<open>i\<close> of the array.
  The rows are \<open>(score, text)\<close> tuples, so \<open>in\<close> is tuple membership.\<close>

fun check_presence :: "pyval \<Rightarrow> scored list \<Rightarrow> bool" where
  "check_presence element [] = False"
| "check_presence element (i # array) =
     (if element \<in> set (tuple_items i) then True else check_presence element array)"

section \<open>Regular expressions\<close>

text \<open>
  Every pattern of the pipeline is compiled with \<open>(?i)\<close> and is a sequence of literal
  characters and \<open>\s*\<close>. \<open>str.lower\<close> on one character (code points below 256):
\<close>

definition lower_char :: "char \<Rightarrow> char" where
  "lower_char c =
     (let n = (of_char c :: nat)
      in if (65 \<le> n \<and> n \<le> 90) \<or> (192 \<le> n \<and> n \<le> 222 \<and> n \<noteq> 215)
         then char_of (n + 32) else c)"

definition lower :: "string \<Rightarrow> string" where
  "lower s = map lower_char s"

datatype re_atom = Lit char | WsStar

type_synonym pattern = "re_atom list"

definition lit :: "string \<Rightarrow> pattern" where
  "lit s = map Lit s"

text \<open>The pattern matches at the start of the text, ignoring case.\<close>

fun re_match_here :: "pattern \<Rightarrow> string \<Rightarrow> bool" where
  "re_match_here [] s \<longleftrightarrow> True"
| "re_match_here (Lit c # p) [] \<longleftrightarrow> False"
| "re_match_here (Lit c # p) (d # s) \<longleftrightarrow> lower_char d = lower_char c \<and> re_match_here p s"
| "re_match_here (WsStar # p) [] \<longleftrightarrow> re_match_here p []"
| "re_match_here (WsStar # p) (d # s) \<longleftrightarrow>
     (isspace d \<and> re_match_here (WsStar # p) s) \<or> re_match_here p (d # s)"

text \<open>\<open>p.search(text)\<close> is truthy: the pattern matches at some position of the text.\<close>

fun re_search :: "pattern \<Rightarrow> string \<Rightarrow> bool" where
  "re_search p [] \<longleftrightarrow> re_match_here p []"
| "re_search p (c # s) \<longleftrightarrow> re_match_here p (c # s) \<or> re_search p s"

text \<open>\<open>Helper_functions.regex_search\<close>.\<close>

fun regex_search :: "string \<Rightarrow> pattern list \<Rightarrow> bool" where
  "regex_search text [] = False"
| "regex_search text (p # pattern) =
     (if re_search p text then True else regex_search text pattern)"

text \<open>\<open>Analyser.find_genericwords\<close>.\<close>

definition generic_pattern :: "pattern list" where
  "generic_pattern =
     [lit ''machine'' @ [WsStar] @ lit ''learning'',
      lit ''artificial'' @ [WsStar] @ lit ''intelligence'',
      lit ''510'' @ [WsStar] @ lit ''k'',
      lit ''A.I.'']"

definition find_genericwords :: "string \<Rightarrow> bool" where
  "find_genericwords text = (if text = [] then False else regex_search text generic_pattern)"

text \<open>\<open>Analyser.__find_attack_type\<close>: 0 is an inference-time attack, 1 a training-time
  attack, -1 neither.\<close>

definition pattern_inference_time :: "pattern list" where
  "pattern_inference_time =
     [lit ''adversarial'' @ [WsStar] @ lit ''example'',
      lit ''evasion'',
      lit ''privacy attack'',
      lit ''membership'' @ [WsStar] @ lit ''inference'',
      lit ''model inversion'']"

definition pattern_training_time :: "pattern list" where
  "pattern_training_time =
     [lit ''training'' @ [WsStar] @ lit ''time'',
      lit ''poisoning'',
      lit ''data'' @ [WsStar] @ lit ''manipulation'']"

definition find_attack_type :: "string \<Rightarrow> int" where
  "find_attack_type text =
     (if text = [] then - 1
      else if regex_search text pattern_inference_time then 0
      else if regex_search text pattern_training_time then 1
      else - 1)"

section \<open>Settings\<close>

definition QUESTION_1 :: string where "QUESTION_1 = ''What are the algorithms used?''"
definition QUESTION_2 :: string where "QUESTION_2 = ''What are the techniques used?''"
definition QUESTION_3 :: string where "QUESTION_3 = ''What are machine learning techniques used?''"
definition QUESTION_4 :: string where "QUESTION_4 = ''What is the input format to the device?''"

definition NUMBER_OF_KEYWORDS :: nat where "NUMBER_OF_KEYWORDS = 5"

text \<open>The confidence floor of \<open>analyse_pages\<close>: the float written \<open>1e-2\<close>, which is the
  double nearest to one hundredth and lies just above it.\<close>

definition confidence_floor :: real where
  "confidence_floor = 5764607523034235 / 2 ^ 59"

section \<open>The browser\<close>

text \<open>
  Exceptions are values. The classes the code tells apart are named; every other
  subclass of \<open>Exception\<close> is \<open>OtherException\<close>.
\<close>

datatype exn = RequestException | TimeoutException | WebDriverException | OtherException

text \<open>
  The outside world (the network, the Selenium session, the running search generator)
  is a state \<open>'w\<close> threaded through every call. Each operation returns its result, or
  the exception it raised, together with the new state.
  \<^item> \<open>requests_get url\<close>: \<open>requests.get\<close>, returning the status code;
  \<^item> \<open>driver_get url\<close>: \<open>driver.get(url)\<close> followed by \<open>driver.page_source\<close>;
  \<^item> \<open>driver_reinit\<close>: quitting and reconnecting the driver, whatever its outcome;
  \<^item> \<open>googlesearch_search query\<close>: \<open>googlesearch.search\<close>, which starts a result generator;
  \<^item> \<open>search_next\<close>: \<open>next(search_results, None)\<close> on that generator;
  \<^item> \<open>get_info query\<close>: \<open>scholarly_scraper.get_info\<close>, a list of
    \<open>[title, abstract, url]\<close> records.
\<close>

type_synonym paper = "string list"

record 'w web =
  requests_get :: "string \<Rightarrow> 'w \<Rightarrow> (exn + nat) \<times> 'w"
  driver_get :: "string \<Rightarrow> 'w \<Rightarrow> (exn + string) \<times> 'w"
  driver_reinit :: "'w \<Rightarrow> 'w"
  googlesearch_search :: "string \<Rightarrow> 'w \<Rightarrow> (exn + unit) \<times> 'w"
  search_next :: "'w \<Rightarrow> (exn + string option) \<times> 'w"
  get_info :: "string \<Rightarrow> 'w \<Rightarrow> (exn + paper list) \<times> 'w"

definition NO_SEARCH_RESULTS :: nat where "NO_SEARCH_RESULTS = 2"

text \<open>\<open>browser.check_link\<close>.\<close>

definition check_link :: "'w web \<Rightarrow> string \<Rightarrow> 'w \<Rightarrow> (exn + bool) \<times> 'w" where
  "check_link env url w =
     (case requests_get env url w of
        (Inr status_code, w') \<Rightarrow> if status_code = 404 then (Inr False, w') else (Inr True, w')
      | (Inl RequestException, w') \<Rightarrow> (Inr False, w')
      | (Inl e, w') \<Rightarrow> (Inl e, w'))"

text \<open>\<open>browser.get_page\<close>: the page source, or the string \<open>"None"\<close>.\<close>

definition get_page :: "'w web \<Rightarrow> string \<Rightarrow> 'w \<Rightarrow> (exn + string) \<times> 'w" where
  "get_page env url w =
     (case check_link env url w of
        (Inl e, w1) \<Rightarrow> (Inl e, w1)
      | (Inr False, w1) \<Rightarrow> (Inr ''None'', w1)
      | (Inr True, w1) \<Rightarrow>
          (case driver_get env url w1 of
             (Inr page_source, w2) \<Rightarrow> (Inr page_source, w2)
           | (Inl TimeoutException, w2) \<Rightarrow> (Inr ''None'', w2)
           | (Inl WebDriverException, w2) \<Rightarrow> (Inr ''None'', driver_reinit env w2)
           | (Inl e, w2) \<Rightarrow> (Inl e, w2)))"

text \<open>\<open>browser.get_google_search_results\<close>.\<close>

definition get_google_search_results :: "'w web \<Rightarrow> string \<Rightarrow> 'w \<Rightarrow> (exn + unit) \<times> 'w" where
  "get_google_search_results env query w = googlesearch_search env (strip query) w"

definition desc_pattern :: "pattern list" where
  "desc_pattern =
     [lit ''machine'' @ [WsStar] @ lit ''learning'',
      lit ''artificial'' @ [WsStar] @ lit ''intelligence'',
      lit ''deep'' @ [WsStar] @ lit ''learning'',
      lit ''neural'' @ [WsStar] @ lit ''network'',
      lit ''classification'' @ [WsStar] @ lit ''methods'',
      lit ''classifier'',
      lit ''computer'' @ [WsStar] @ lit ''vision'']"

text \<open>
  The \<open>for i in range(...)\<close> loop of \<open>browser.check_desc\<close>, with \<open>n\<close> iterations left.
  \<open>Inr True\<close> is the \<open>return True\<close> inside the loop, \<open>Inr False\<close> the loop ending
  without it, \<open>Inl e\<close> an exception leaving the loop.
\<close>

fun check_desc_pages :: "'w web \<Rightarrow> nat \<Rightarrow> 'w \<Rightarrow> (exn + bool) \<times> 'w" where
  "check_desc_pages env 0 w = (Inr False, w)"
| "check_desc_pages env (Suc n) w =
     (case search_next env w of
        (Inl e, w1) \<Rightarrow> (Inl e, w1)
      | (Inr None, w1) \<Rightarrow> (Inr False, w1)
      | (Inr (Some page), w1) \<Rightarrow>
          if str_contains ''fda.gov'' page \<or> str_contains ''.img'' page
               \<or> str_contains ''.pdf'' page
          then check_desc_pages env n w1
          else (case get_page env page w1 of
                  (Inl e, w2) \<Rightarrow> (Inl e, w2)
                | (Inr content, w2) \<Rightarrow>
                    if content = ''None'' then check_desc_pages env n w2
                    else if regex_search content desc_pattern then (Inr True, w2)
                    else check_desc_pages env n w2))"

text \<open>The body of the \<open>try\<close> block of \<open>browser.check_desc\<close>.\<close>

definition check_desc_try :: "'w web \<Rightarrow> string \<Rightarrow> 'w \<Rightarrow> (exn + bool) \<times> 'w" where
  "check_desc_try env query w =
     (case get_google_search_results env query w of
        (Inl e, w1) \<Rightarrow> (Inl e, w1)
      | (Inr search_results, w1) \<Rightarrow> check_desc_pages env (min NO_SEARCH_RESULTS 3) w1)"

text \<open>\<open>browser.check_desc\<close>: \<open>result\<close> is \<open>False\<close> unless the \<open>except\<close> clause sets it.\<close>

definition check_desc :: "'w web \<Rightarrow> string \<Rightarrow> 'w \<Rightarrow> (exn + bool) \<times> 'w" where
  "check_desc env query w =
     (case check_desc_try env query w of
        (Inl e, w') \<Rightarrow> (Inr True, w')
      | (Inr returned, w') \<Rightarrow> (Inr returned, w'))"

section \<open>The language model\<close>

text \<open>More string primitives: \<open>s.split(sep)\<close> for a one-character separator,
  \<open>s.split(sep)[0]\<close> for a non-empty separator, \<open>sep.join(xs)\<close>, and \<open>\d\<close>.\<close>

fun split_on :: "char \<Rightarrow> string \<Rightarrow> string list" where
  "split_on sep [] = [[]]"
| "split_on sep (c # s) =
     (if c = sep then [] # split_on sep s
      else case split_on sep s of
             [] \<Rightarrow> [[c]]
           | first # others \<Rightarrow> (c # first) # others)"

fun before_sep :: "string \<Rightarrow> string \<Rightarrow> string" where
  "before_sep sep [] = []"
| "before_sep sep (c # s) = (if prefix sep (c # s) then [] else c # before_sep sep s)"

fun join :: "string \<Rightarrow> string list \<Rightarrow> string" where
  "join sep [] = []"
| "join sep [x] = x"
| "join sep (x # y # xs) = x @ sep @ join sep (y # xs)"

definition isdigit :: "char \<Rightarrow> bool" where
  "isdigit c \<longleftrightarrow> CHR ''0'' \<le> c \<and> c \<le> CHR ''9''"

text \<open>
  \<open>LLMResponse\<close>: \<open>data\<close> is \<open>None\<close> on failure. The \<open>error\<close> and \<open>error_type\<close> fields
  carry log messages only and are left out.
\<close>

record 'a LLMResponse =
  success :: bool
  data :: "'a option"

text \<open>One call \<open>self.model_name.generate(prompt)\<close> of the GPT4All model: it raises,
  returns \<open>None\<close>, or returns a reply.\<close>

type_synonym llm = "string \<Rightarrow> exn + string option"

text \<open>\<open>LLM.generate\<close>.\<close>

definition generate :: "llm \<Rightarrow> string \<Rightarrow> string LLMResponse" where
  "generate model prompt =
     (if prompt = [] then \<lparr>success = False, data = None\<rparr>
      else if length (strip prompt) = 0 then \<lparr>success = False, data = None\<rparr>
      else case model prompt of
             Inl e \<Rightarrow> \<lparr>success = False, data = None\<rparr>
           | Inr None \<Rightarrow> \<lparr>success = False, data = None\<rparr>
           | Inr (Some response) \<Rightarrow> \<lparr>success = True, data = Some response\<rparr>)"

text \<open>\<open>re.match(r"\d+\.\s*(.*)", item)\<close>: group 1 when the item starts with an ordinal.\<close>

definition numbered_item :: "string \<Rightarrow> string option" where
  "numbered_item item =
     (let digits = takeWhile isdigit item; rest = dropWhile isdigit item
      in case rest of
           [] \<Rightarrow> None
         | c # rest' \<Rightarrow>
             if digits \<noteq> [] \<and> c = CHR ''.''
             then Some (takeWhile (\<lambda>c. c \<noteq> CHR 0x0A) (dropWhile isspace rest'))
             else None)"

text \<open>The item loop of \<open>LLM.__list_format\<close>.\<close>

fun list_format_items :: "string list \<Rightarrow> string list" where
  "list_format_items [] = []"
| "list_format_items (item # response_list) =
     (let item = strip item;
          item = strip (before_sep '':'' item);
          item = strip (before_sep '' - '' item)
      in if item = [] \<or> str_contains ''most relevant'' (lower item) \<or> length item > 60
         then list_format_items response_list
         else
           let item = (case numbered_item item of Some group_1 \<Rightarrow> group_1 | None \<Rightarrow> item)
           in if item \<noteq> [] then item # list_format_items response_list
              else list_format_items response_list)"

definition list_format :: "string \<Rightarrow> string list" where
  "list_format response =
     (if response = [] then []
      else list_format_items (split_on (CHR '','') (replace_char (CHR 0x0A) (CHR '','') response)))"

text \<open>\<open>LLM.keyword_completion\<close>.\<close>

definition keyword_completion :: "llm \<Rightarrow> string list \<Rightarrow> string list LLMResponse" where
  "keyword_completion model keywords =
     (if keywords = [] then \<lparr>success = True, data = Some []\<rparr>
      else
        let valid_keywords = filter (\<lambda>keyword. keyword \<noteq> []) (map strip keywords)
        in if valid_keywords = [] then \<lparr>success = True, data = Some []\<rparr>
           else
             let prompt =
                   ''Following are some keywords extracted from a document. ''
                   @ ''Which of these are the most relevant to the context of AI-enabled medical devices? ''
                   @ join '', '' valid_keywords
                   @ [CHR 0x0A] @ ''Please list only the most relevant keywords, one per line.'';
                 response_result = generate model prompt
             in if \<not> success response_result then \<lparr>success = False, data = None\<rparr>
                else case data response_result of
                       Some response \<Rightarrow> \<lparr>success = True, data = Some (list_format response)\<rparr>
                     | None \<Rightarrow> \<lparr>success = True, data = Some []\<rparr>)"

section \<open>The question-answering model\<close>

text \<open>The outcome of one call \<open>self.nlp({"question": q, "context": p})\<close>: the pipeline
  raises, returns a falsy value, or returns a result with a score and an answer.\<close>

datatype nlp_result = NlpRaises | NlpFalsy | NlpAnswer real string

type_synonym nlp = "string \<Rightarrow> string \<Rightarrow> nlp_result"

text \<open>The paragraph loop of \<open>Model.analyse_pages\<close>.\<close>

fun analyse_paragraphs :: "nlp \<Rightarrow> string \<Rightarrow> string list \<Rightarrow> scored list" where
  "analyse_paragraphs nlp question [] = []"
| "analyse_paragraphs nlp question (input_paragraph # pages) =
     (if input_paragraph = [] \<or> strip input_paragraph = []
      then analyse_paragraphs nlp question pages
      else case nlp question input_paragraph of
             NlpAnswer score answer \<Rightarrow>
               if score > confidence_floor
               then (score, replace_char (CHR 0x0A) (CHR '' '') (strip answer))
                      # analyse_paragraphs nlp question pages
               else analyse_paragraphs nlp question pages
           | _ \<Rightarrow> analyse_paragraphs nlp question pages)"

definition analyse_pages :: "nlp \<Rightarrow> string list \<Rightarrow> string \<Rightarrow> scored list" where
  "analyse_pages nlp pages question =
     (if pages = [] \<or> question = [] then []
      else sort_reverse (analyse_paragraphs nlp question pages))"

section \<open>The analyser\<close>

record analysis_run =
  initial_results :: "scored list"
  filtered_results :: "scored list"
  additional_results :: "scored list"
  neglected_results :: "scored list"

text \<open>The duplicate-removal loop of \<open>level_1\<close>; \<open>kept\<close> is \<open>self.initial_results\<close>.\<close>

fun remove_duplicates :: "scored list \<Rightarrow> scored list \<Rightarrow> scored list" where
  "remove_duplicates kept [] = kept"
| "remove_duplicates kept (a # answer) =
     (if \<not> check_presence (PyStr (snd a)) kept
      then remove_duplicates (kept @ [a]) answer
      else remove_duplicates kept answer)"

text \<open>The answers of the first three questions, in the order \<open>level_1\<close> collects them.\<close>

definition pooled_answers :: "nlp \<Rightarrow> string list \<Rightarrow> scored list" where
  "pooled_answers nlp pages =
     analyse_pages nlp pages QUESTION_1 @ analyse_pages nlp pages QUESTION_2
       @ analyse_pages nlp pages QUESTION_3"

definition level_1 :: "nlp \<Rightarrow> string list \<Rightarrow> analysis_run \<Rightarrow> scored list \<times> analysis_run" where
  "level_1 nlp pages self =
     (if pages = [] then ([], self)
      else
        let answer = pooled_answers nlp pages;
            answer_4 = analyse_pages nlp pages QUESTION_4;
            self = self\<lparr>additional_results := answer_4\<rparr>
        in case sort_reverse answer of
             [] \<Rightarrow> ([], self\<lparr>initial_results := []\<rparr>)
           | a0 # rest \<Rightarrow>
               let kept = remove_duplicates [a0] rest
               in (kept, self\<lparr>initial_results := kept\<rparr>))"

text \<open>
  The candidate loop of \<open>level_2\<close>. The parameter \<open>validate\<close> is \<open>self.browser.check_desc\<close>;
  the loop's own \<open>try\<close> covers the case that the call raises.
\<close>

fun level_2_loop ::
  "(string \<Rightarrow> 'w \<Rightarrow> (exn + bool) \<times> 'w) \<Rightarrow> scored list \<Rightarrow> analysis_run \<Rightarrow> 'w
     \<Rightarrow> analysis_run \<times> 'w" where
  "level_2_loop validate [] self w = (self, w)"
| "level_2_loop validate (i # results) self w =
     (if length (filtered_results self) \<ge> NUMBER_OF_KEYWORDS then (self, w)
      else
        let keyword = snd i
        in if keyword = [] then level_2_loop validate results self w
           else if find_genericwords keyword then level_2_loop validate results self w
           else (case validate keyword w of
                   (Inr True, w') \<Rightarrow>
                     level_2_loop validate results
                       (self\<lparr>filtered_results := filtered_results self @ [i]\<rparr>) w'
                 | (Inr False, w') \<Rightarrow>
                     level_2_loop validate results
                       (self\<lparr>neglected_results := neglected_results self @ [i]\<rparr>) w'
                 | (Inl e, w') \<Rightarrow> level_2_loop validate results self w'))"

definition level_2 ::
  "(string \<Rightarrow> 'w \<Rightarrow> (exn + bool) \<times> 'w) \<Rightarrow> scored list \<Rightarrow> analysis_run \<Rightarrow> 'w
     \<Rightarrow> (scored list \<times> analysis_run) \<times> 'w" where
  "level_2 validate results self w =
     (if results = [] then (([], self), w)
      else
        case level_2_loop validate results
               (self\<lparr>filtered_results := [], neglected_results := []\<rparr>) w of
          (self', w') \<Rightarrow> ((filtered_results self', self'), w'))"

text \<open>
  \<open>level_2_alt\<close>. Taking the length of a missing \<open>data\<close> raises, and the outer
  \<open>except\<close> clause returns the empty list.
\<close>

definition level_2_alt :: "llm \<Rightarrow> scored list \<Rightarrow> string list" where
  "level_2_alt model results =
     (if results = [] then []
      else
        let list_of_keywords = map snd results
        in if list_of_keywords = [] then []
           else
             let keywords_response = keyword_completion model list_of_keywords
             in case (if success keywords_response then data keywords_response
                      else Some (take 5 list_of_keywords)) of
                  None \<Rightarrow> []
                | Some keywords \<Rightarrow> filter (\<lambda>keyword. \<not> find_genericwords keyword) keywords)"

text \<open>\<open>level_3\<close>: the loop over the candidates for one search prefix, and the loop over
  the prefixes.\<close>

definition prefix_list :: "string list" where
  "prefix_list = [''Security Attacks on '', ''Inference time attacks on '',
                  ''Training time attacks on '']"

fun level_3_keywords ::
  "'w web \<Rightarrow> string \<Rightarrow> scored list \<Rightarrow> 'w \<Rightarrow> paper list list \<times> 'w" where
  "level_3_keywords env search_prefix [] w = ([], w)"
| "level_3_keywords env search_prefix (r # results) w =
     (let keyword = snd r
      in if keyword \<noteq> [] then
           (case get_info env (search_prefix @ keyword) w of
              (Inr result, w1) \<Rightarrow>
                (case level_3_keywords env search_prefix results w1 of
                   (objects, w2) \<Rightarrow> (result # objects, w2))
            | (Inl e, w1) \<Rightarrow>
                (case level_3_keywords env search_prefix results w1 of
                   (objects, w2) \<Rightarrow> ([] # objects, w2)))
         else
           (case level_3_keywords env search_prefix results w of
              (objects, w2) \<Rightarrow> ([] # objects, w2)))"

fun level_3_prefixes ::
  "'w web \<Rightarrow> string list \<Rightarrow> scored list \<Rightarrow> 'w \<Rightarrow> paper list list list \<times> 'w" where
  "level_3_prefixes env [] results w = ([], w)"
| "level_3_prefixes env (search_prefix # more_prefixes) results w =
     (case level_3_keywords env search_prefix results w of
        (objects, w1) \<Rightarrow>
          (case level_3_prefixes env more_prefixes results w1 of
             (answers, w2) \<Rightarrow> (objects # answers, w2)))"

definition level_3 :: "'w web \<Rightarrow> scored list \<Rightarrow> 'w \<Rightarrow> paper list list list \<times> 'w" where
  "level_3 env results w =
     (if results = [] then ([], w) else level_3_prefixes env prefix_list results w)"

text \<open>
  \<open>level_4\<close>: the loop over the papers of one \<open>[i][j]\<close> position, returning the papers
  kept (\<open>filtered_results\<close>) and those appended to \<open>rejected_results[i][j]\<close>; then the
  loops over \<open>j\<close> and over \<open>i\<close>.
\<close>

fun level_4_papers :: "'w web \<Rightarrow> paper list \<Rightarrow> 'w \<Rightarrow> (paper list \<times> paper list) \<times> 'w" where
  "level_4_papers env [] w = (([], []), w)"
| "level_4_papers env (paper_info # papers) w =
     (if length paper_info < 3 then level_4_papers env papers w
      else
        case get_page env (paper_info ! 2) w of
          (Inl e, w1) \<Rightarrow> level_4_papers env papers w1
        | (Inr page, w1) \<Rightarrow>
            (let paper_type = find_attack_type page
             in case level_4_papers env papers w1 of
                  ((filtered, rejected), w2) \<Rightarrow>
                    if paper_type = 0 \<or> paper_type = 1
                    then (((paper_info
                             @ [''Attack Type '' @ (if paper_type = 0 then ''0'' else ''1'')])
                            # filtered, rejected), w2)
                    else ((filtered, paper_info # rejected), w2)))"

fun level_4_keywords ::
  "'w web \<Rightarrow> paper list list \<Rightarrow> 'w \<Rightarrow> (paper list list \<times> paper list list) \<times> 'w" where
  "level_4_keywords env [] w = (([], []), w)"
| "level_4_keywords env (papers # row) w =
     (case level_4_papers env papers w of
        ((filtered, rejected), w1) \<Rightarrow>
          (case level_4_keywords env row w1 of
             ((results_i, rejected_i), w2) \<Rightarrow>
               ((filtered # results_i, rejected # rejected_i), w2)))"

fun level_4_prefixes ::
  "'w web \<Rightarrow> paper list list list \<Rightarrow> 'w
     \<Rightarrow> (paper list list list \<times> paper list list list) \<times> 'w" where
  "level_4_prefixes env [] w = (([], []), w)"
| "level_4_prefixes env (row # rows) w =
     (case level_4_keywords env row w of
        ((results_i, rejected_i), w1) \<Rightarrow>
          (case level_4_prefixes env rows w1 of
             ((results, rejected_results), w2) \<Rightarrow>
               ((results_i # results, rejected_i # rejected_results), w2)))"

definition level_4 ::
  "'w web \<Rightarrow> paper list list list \<Rightarrow> 'w
     \<Rightarrow> (paper list list list \<times> paper list list list) \<times> 'w" where
  "level_4 env results w =
     (if results = [] then (([], []), w) else level_4_prefixes env results w)"

text \<open>A fresh \<open>Analyser\<close>, as its constructor leaves it.\<close>

definition new_analyser :: analysis_run where
  "new_analyser = \<lparr>initial_results = [], filtered_results = [],
                   additional_results = [], neglected_results = []\<rparr>"


section \<open>Concrete runs\<close>

text \<open>A world in which every request fails: the HTTP check and the driver raise, the
  web search raises, and the paper search finds nothing.\<close>

definition web_offline :: "unit web" where
  "web_offline =
     \<lparr>requests_get = (\<lambda>url w. (Inl RequestException, w)),
      driver_get = (\<lambda>url w. (Inl WebDriverException, w)),
      driver_reinit = (\<lambda>w. w),
      googlesearch_search = (\<lambda>query w. (Inl OtherException, w)),
      search_next = (\<lambda>w. (Inl OtherException, w)),
      get_info = (\<lambda>query w. (Inr [], w))\<rparr>"


text \<open>A world that counts the HTTP requests made so far: the first one is answered
  with status 200, every later one with 404. Every page the driver loads speaks of
  evasion.\<close>

definition web_rate_limited :: "nat web" where
  "web_rate_limited =
     \<lparr>requests_get = (\<lambda>url w. (Inr (if w = 0 then 200 else 404), Suc w)),
      driver_get = (\<lambda>url w. (Inr ''an evasion attack'', w)),
      driver_reinit = (\<lambda>w. w),
      googlesearch_search = (\<lambda>query w. (Inr (), w)),
      search_next = (\<lambda>w. (Inr None, w)),
      get_info = (\<lambda>query w. (Inr [], w))\<rparr>"

text \<open>A world in which the HTTP request raises an exception that is not a
  \<open>RequestException\<close>.\<close>

definition web_broken :: "unit web" where
  "web_broken =
     \<lparr>requests_get = (\<lambda>url w. (Inl OtherException, w)),
      driver_get = (\<lambda>url w. (Inr [], w)),
      driver_reinit = (\<lambda>w. w),
      googlesearch_search = (\<lambda>query w. (Inr (), w)),
      search_next = (\<lambda>w. (Inr None, w)),
      get_info = (\<lambda>query w. (Inr [], w))\<rparr>"

text \<open>A language model whose every call raises.\<close>

definition llm_raising :: llm where
  "llm_raising prompt = Inl OtherException"

text \<open>Question-answering models: one that finds a phrase and a shorter phrase inside
  it; one that finds two answers with the same score; one that gives a different answer
  to each of the first three questions from one paragraph and answers the fourth from
  another, its other answers at or below the confidence floor; and that last one with
  the fourth question raising.\<close>

definition nlp_xgboost :: nlp where
  "nlp_xgboost question paragraph =
     (if question = QUESTION_1 \<and> paragraph = ''p1'' then NlpAnswer (9 / 10) ''XGBoost classifier''
      else if question = QUESTION_1 \<and> paragraph = ''p2'' then NlpAnswer (8 / 10) ''XGBoost''
      else NlpFalsy)"

definition nlp_ties :: nlp where
  "nlp_ties question paragraph =
     (if question = QUESTION_1 \<and> paragraph = ''p1'' then NlpAnswer (1 / 2) ''a''
      else if question = QUESTION_1 \<and> paragraph = ''p2'' then NlpAnswer (1 / 2) ''b''
      else NlpFalsy)"

definition nlp_scenario :: nlp where
  "nlp_scenario question paragraph =
     (if paragraph = ''Uses a convolutional neural network classifier.'' then
        (if question = QUESTION_1 then NlpAnswer (8 / 10) ''convolutional neural network''
         else if question = QUESTION_2 then NlpAnswer (6 / 10) ''classifier''
         else if question = QUESTION_3 then NlpAnswer (5 / 10) ''neural network''
         else NlpAnswer (1 / 200) ''Uses'')
      else
        (if question = QUESTION_4 then NlpAnswer (7 / 10) ''DICOM image''
         else NlpAnswer confidence_floor ''Input''))"

definition nlp_scenario_mute :: nlp where
  "nlp_scenario_mute question paragraph =
     (if question = QUESTION_4 then NlpRaises else nlp_scenario question paragraph)"

text \<open>The ordering the specification describes: by confidence, descending, answers of
  equal confidence in the order of discovery (a stable sort on the confidence alone).\<close>

definition spec_stable_order :: "scored list \<Rightarrow> scored list" where
  "spec_stable_order answer = sort_key (\<lambda>a. - fst a) answer"

text \<open>The two paragraphs the last two models are run on.\<close>

definition scenario_pages :: "string list" where
  "scenario_pages = [''Uses a convolutional neural network classifier.'',
                     ''Input is a DICOM image.'']"

section \<open>Level 2: the cap on validated keywords\<close>

lemma level_2_loop_bound:
  "length (filtered_results self) \<le> NUMBER_OF_KEYWORDS \<Longrightarrow>
   length (filtered_results (fst (level_2_loop validate results self w))) \<le> NUMBER_OF_KEYWORDS"
proof (induction results arbitrary: self w)
  case Nil
  then show ?case by simp
next
  case (Cons i results)
  show ?case
  proof (cases "length (filtered_results self) \<ge> NUMBER_OF_KEYWORDS")
    case True
    with Cons.prems show ?thesis by simp
  next
    case False
    then have room: "length (filtered_results self @ [i]) \<le> NUMBER_OF_KEYWORDS" by simp
    show ?thesis
      using False Cons.prems Cons.IH room
      by (auto simp: Let_def split: prod.splits sum.splits bool.splits)
  qed
qed

text \<open>
  Claim C2. Whatever the candidate list, the analyser state, the validator and the
  outcomes of its calls (success, failure or an exception), the list returned by
  \<open>level_2\<close> has at most \<open>NUMBER_OF_KEYWORDS\<close> elements, and that setting is 5. The model
  is a total function, so the loop ends on every input.
\<close>

theorem level_2_cap:
  "length (fst (fst (level_2 validate results self w))) \<le> NUMBER_OF_KEYWORDS
   \<and> NUMBER_OF_KEYWORDS = 5"
proof -
  have "length (filtered_results
          (fst (level_2_loop validate results
                  (self\<lparr>filtered_results := [], neglected_results := []\<rparr>) w)))
        \<le> NUMBER_OF_KEYWORDS"
    by (rule level_2_loop_bound) simp
  then show ?thesis
    by (auto simp: level_2_def NUMBER_OF_KEYWORDS_def split: prod.splits)
qed

section \<open>Level 2: exceptions while validating\<close>

lemma level_2_loop_append:
  "level_2_loop validate (xs @ ys) self w =
     (case level_2_loop validate xs self w of (self1, w1) \<Rightarrow> level_2_loop validate ys self1 w1)"
proof (induction xs arbitrary: self w)
  case Nil
  then show ?case by simp
next
  case (Cons i xs)
  show ?case
  proof (cases "length (filtered_results self) \<ge> NUMBER_OF_KEYWORDS")
    case True
    then show ?thesis by (cases ys) simp_all
  next
    case False
    then show ?thesis
      using Cons.IH by (simp add: Let_def split: prod.splits sum.splits bool.splits)
  qed
qed

lemma level_2_loop_grows:
  "set (filtered_results self) \<subseteq> set (filtered_results (fst (level_2_loop validate results self w)))"
proof (induction results arbitrary: self w)
  case Nil
  then show ?case by simp
next
  case (Cons i results)
  show ?case
    using Cons.IH[of self] Cons.IH[of "self\<lparr>filtered_results := filtered_results self @ [i]\<rparr>"]
          Cons.IH[of "self\<lparr>neglected_results := neglected_results self @ [i]\<rparr>"]
    by (auto simp: Let_def split: prod.splits sum.splits bool.splits)
qed

lemma level_2_returns:
  "results \<noteq> [] \<Longrightarrow>
   fst (fst (level_2 validate results self w)) =
     filtered_results (fst (level_2_loop validate results
        (self\<lparr>filtered_results := [], neglected_results := []\<rparr>) w))"
  by (auto simp: level_2_def split: prod.splits)

text \<open>\<open>check_desc\<close> itself never raises: its \<open>except\<close> clause covers its whole body.\<close>

lemma check_desc_returns: "\<exists>b. fst (check_desc env query w) = Inr b"
  by (auto simp: check_desc_def split: prod.splits sum.splits)

text \<open>
  Claim C10. If an exception is raised inside the \<open>try\<close> block of \<open>check_desc\<close> while
  a keyword is validated, \<open>check_desc\<close> returns \<open>True\<close>; \<open>level_2\<close>, having reached
  that keyword below the cap, appends the candidate to \<open>filtered_results\<close> and leaves
  \<open>neglected_results\<close> as it was, and the candidate is in the list \<open>level_2\<close> returns.
\<close>

theorem level_2_admits_crashed_validation:
  assumes crash: "fst (check_desc_try env keyword w') = Inl e"
    and before: "level_2_loop (check_desc env) before
                   (self\<lparr>filtered_results := [], neglected_results := []\<rparr>) w = (self', w')"
    and room: "length (filtered_results self') < NUMBER_OF_KEYWORDS"
    and kw: "keyword \<noteq> []" "\<not> find_genericwords keyword"
  shows "fst (check_desc env keyword w') = Inr True
    \<and> level_2_loop (check_desc env) ((score, keyword) # after) self' w' =
        level_2_loop (check_desc env) after
          (self'\<lparr>filtered_results := filtered_results self' @ [(score, keyword)]\<rparr>)
          (snd (check_desc env keyword w'))
    \<and> (score, keyword)
        \<in> set (fst (fst (level_2 (check_desc env) (before @ (score, keyword) # after) self w)))"
proof -
  obtain w2 where body: "check_desc_try env keyword w' = (Inl e, w2)"
    using crash by (cases "check_desc_try env keyword w'") simp
  from body have cd: "check_desc env keyword w' = (Inr True, w2)"
    by (simp add: check_desc_def)
  let ?self2 = "self'\<lparr>filtered_results := filtered_results self' @ [(score, keyword)]\<rparr>"
  have step: "level_2_loop (check_desc env) ((score, keyword) # after) self' w' =
        level_2_loop (check_desc env) after ?self2 w2"
    using cd room kw by (simp add: Let_def)
  have mem: "(score, keyword) \<in> set (filtered_results ?self2)" by simp
  have sub: "set (filtered_results ?self2)
      \<subseteq> set (filtered_results (fst (level_2_loop (check_desc env) after ?self2 w2)))"
    by (rule level_2_loop_grows)
  from sub mem have "(score, keyword)
      \<in> set (filtered_results (fst (level_2_loop (check_desc env) after ?self2 w2)))"
    by (rule subsetD)
  then have "(score, keyword)
      \<in> set (filtered_results (fst (level_2_loop (check_desc env)
                (before @ (score, keyword) # after)
                (self\<lparr>filtered_results := [], neglected_results := []\<rparr>) w)))"
    by (simp add: level_2_loop_append before step del: level_2_loop.simps)
  then have "(score, keyword)
        \<in> set (fst (fst (level_2 (check_desc env) (before @ (score, keyword) # after) self w)))"
    by (simp add: level_2_returns del: level_2_loop.simps)
  with cd step show ?thesis by (simp del: level_2_loop.simps)
qed

theorem level_2_admits_crashed_validation_witness:
  "fst (check_desc_try web_offline ''CNN'' ()) = Inl OtherException
   \<and> level_2_loop (check_desc web_offline) [(9 / 10, ''machine learning'')]
        (new_analyser\<lparr>filtered_results := [], neglected_results := []\<rparr>) () =
       (new_analyser, ())
   \<and> length (filtered_results new_analyser) < NUMBER_OF_KEYWORDS
   \<and> ''CNN'' \<noteq> [] \<and> \<not> find_genericwords ''CNN''
   \<and> fst (check_desc web_offline ''CNN'' ()) = Inr True
   \<and> (8 / 10, ''CNN'')
        \<in> set (fst (fst (level_2 (check_desc web_offline)
                 ([(9 / 10, ''machine learning'')] @ (8 / 10, ''CNN'') # [(7 / 10, ''SVM'')])
                 new_analyser ())))"
proof -
  have h1: "fst (check_desc_try web_offline ''CNN'' ()) = Inl OtherException"
    by code_simp
  have h2: "level_2_loop (check_desc web_offline) [(9 / 10, ''machine learning'')]
        (new_analyser\<lparr>filtered_results := [], neglected_results := []\<rparr>) () =
       (new_analyser, ())"
    by code_simp
  have h3: "length (filtered_results new_analyser) < NUMBER_OF_KEYWORDS"
    by (simp add: new_analyser_def NUMBER_OF_KEYWORDS_def)
  have h4: "''CNN'' \<noteq> []" by simp
  have h5: "\<not> find_genericwords ''CNN''" by code_simp
  show ?thesis
    using level_2_admits_crashed_validation
            [where env = web_offline and keyword = "''CNN''" and w' = "()"
               and e = OtherException and before = "[(9 / 10, ''machine learning'')]"
               and self = new_analyser and w = "()" and self' = new_analyser
               and score = "8 / 10" and after = "[(7 / 10, ''SVM'')]"]
      h1 h2 h3 h4 h5
    by simp
qed





section \<open>Level 2-alt: failure of the language model\<close>

text \<open>\<open>keyword_completion\<close> reports failure exactly when some keyword is left after
  stripping and \<open>generate\<close> fails on the prompt built from them.\<close>

lemma keyword_completion_fails_iff:
  "\<not> success (keyword_completion model keywords) \<longleftrightarrow>
     filter (\<lambda>keyword. keyword \<noteq> []) (map strip keywords) \<noteq> []
     \<and> \<not> success (generate model
          (''Following are some keywords extracted from a document. ''
             @ ''Which of these are the most relevant to the context of AI-enabled medical devices? ''
             @ join '', '' (filter (\<lambda>keyword. keyword \<noteq> []) (map strip keywords))
             @ [CHR 0x0A] @ ''Please list only the most relevant keywords, one per line.''))"
  by (auto simp: keyword_completion_def Let_def split: option.splits)

text \<open>
  Claim C3 as stated fails: with a language model that raises, \<open>keyword_completion\<close>
  returns \<open>success = False\<close> and \<open>level_2_alt\<close> returns the raw candidate, not the empty
  list.
\<close>

theorem level_2_alt_failure_counterexample:
  "\<not> success (keyword_completion llm_raising (map snd [(9 / 10, ''XGBoost'')]))
   \<and> level_2_alt llm_raising [(9 / 10, ''XGBoost'')] = [''XGBoost'']"
  by code_simp

text \<open>
  Claim C3, amended. For every candidate list, if \<open>keyword_completion\<close> returns
  \<open>success = False\<close>, then \<open>level_2_alt\<close> outputs the texts of the first five raw
  candidates from which the generic terms have been removed.
\<close>

theorem level_2_alt_falls_back:
  assumes "\<not> success (keyword_completion model (map snd results))"
  shows "level_2_alt model results =
           filter (\<lambda>keyword. \<not> find_genericwords keyword) (take 5 (map snd results))"
  using assms by (simp add: level_2_alt_def Let_def)

theorem level_2_alt_falls_back_witness:
  "\<not> success (keyword_completion llm_raising
        (map snd [(9 / 10, ''CNN''), (8 / 10, ''machine learning''), (7 / 10, ''a''),
                  (6 / 10, ''b''), (5 / 10, ''c''), (4 / 10, ''d''), (3 / 10, ''e'')]))
   \<and> level_2_alt llm_raising
        [(9 / 10, ''CNN''), (8 / 10, ''machine learning''), (7 / 10, ''a''),
         (6 / 10, ''b''), (5 / 10, ''c''), (4 / 10, ''d''), (3 / 10, ''e'')]
       = [''CNN'', ''a'', ''b'', ''c'']"
proof -
  have h: "\<not> success (keyword_completion llm_raising
        (map snd [(9 / 10, ''CNN''), (8 / 10, ''machine learning''), (7 / 10, ''a''),
                  (6 / 10, ''b''), (5 / 10, ''c''), (4 / 10, ''d''), (3 / 10, ''e'')]))"
    by code_simp
  have f: "filter (\<lambda>keyword. \<not> find_genericwords keyword)
             (take 5 (map snd [(9 / 10 :: real, ''CNN''), (8 / 10, ''machine learning''),
                  (7 / 10, ''a''), (6 / 10, ''b''), (5 / 10, ''c''), (4 / 10, ''d''),
                  (3 / 10, ''e'')]))
           = [''CNN'', ''a'', ''b'', ''c'']"
    by code_simp
  show ?thesis
    using level_2_alt_falls_back [OF h] h f by simp
qed

section \<open>Level 3: the shape of the search results\<close>

lemma list_of_three: "length xs = 3 \<Longrightarrow> xs = [xs ! 0, xs ! 1, xs ! 2]"
  by (auto simp: numeral_3_eq_3 length_Suc_conv)

text \<open>One iteration of each loop, read through \<open>fst\<close>.\<close>

lemma level_3_keywords_Cons:
  "fst (level_3_keywords env search_prefix (r # results) w) =
     (if snd r \<noteq> [] then
        (case fst (get_info env (search_prefix @ snd r) w) of
           Inr result \<Rightarrow> result | Inl e \<Rightarrow> [])
        # fst (level_3_keywords env search_prefix results
                 (snd (get_info env (search_prefix @ snd r) w)))
      else [] # fst (level_3_keywords env search_prefix results w))"
  by (simp add: Let_def split: prod.splits sum.splits)

lemma level_3_prefixes_Cons:
  "fst (level_3_prefixes env (search_prefix # ps) results w) =
     fst (level_3_keywords env search_prefix results w)
     # fst (level_3_prefixes env ps results
              (snd (level_3_keywords env search_prefix results w)))"
  by (simp split: prod.splits)

lemma level_3_keywords_length:
  "length (fst (level_3_keywords env search_prefix results w)) = length results"
proof (induction results arbitrary: w)
  case Nil
  then show ?case by simp
next
  case (Cons r results)
  then show ?case by (simp add: level_3_keywords_Cons del: level_3_keywords.simps)
qed

text \<open>The entry at position \<open>j\<close> is what the search returned for candidate \<open>j\<close>, or the
  empty list when the search raised or the keyword is empty.\<close>

lemma level_3_keywords_nth:
  "j < length results \<Longrightarrow>
   \<exists>w'. fst (level_3_keywords env search_prefix results w) ! j =
     (if snd (results ! j) = [] then []
      else case fst (get_info env (search_prefix @ snd (results ! j)) w') of
             Inr result \<Rightarrow> result | Inl e \<Rightarrow> [])"
proof (induction results arbitrary: w j)
  case Nil
  then show ?case by simp
next
  case (Cons r results)
  show ?case
  proof (cases j)
    case 0
    then show ?thesis
      by (auto simp: level_3_keywords_Cons simp del: level_3_keywords.simps)
  next
    case (Suc k)
    with Cons.prems have k: "k < length results" by simp
    define w1 where
      "w1 = (if snd r \<noteq> [] then snd (get_info env (search_prefix @ snd r) w) else w)"
    have tail: "fst (level_3_keywords env search_prefix (r # results) w) ! Suc k =
                  fst (level_3_keywords env search_prefix results w1) ! k"
      by (simp add: level_3_keywords_Cons w1_def del: level_3_keywords.simps)
    from Cons.IH [OF k, of w1] obtain w' where
      "fst (level_3_keywords env search_prefix results w1) ! k =
         (if snd (results ! k) = [] then []
          else case fst (get_info env (search_prefix @ snd (results ! k)) w') of
                 Inr result \<Rightarrow> result | Inl e \<Rightarrow> [])"
      by blast
    with tail have
      "fst (level_3_keywords env search_prefix (r # results) w) ! Suc k =
         (if snd ((r # results) ! Suc k) = [] then []
          else case fst (get_info env (search_prefix @ snd ((r # results) ! Suc k)) w') of
                 Inr result \<Rightarrow> result | Inl e \<Rightarrow> [])"
      by simp
    then show ?thesis unfolding Suc by (rule exI)
  qed
qed

lemma level_3_prefixes_length:
  "length (fst (level_3_prefixes env ps results w)) = length ps"
proof (induction ps arbitrary: w)
  case Nil
  then show ?case by simp
next
  case (Cons search_prefix ps)
  then show ?case by (simp add: level_3_prefixes_Cons del: level_3_prefixes.simps)
qed

lemma level_3_prefixes_nth:
  "i < length ps \<Longrightarrow>
   \<exists>w'. fst (level_3_prefixes env ps results w) ! i =
         fst (level_3_keywords env (ps ! i) results w')"
proof (induction ps arbitrary: w i)
  case Nil
  then show ?case by simp
next
  case (Cons search_prefix ps)
  show ?case
  proof (cases i)
    case 0
    then show ?thesis
      by (auto simp: level_3_prefixes_Cons simp del: level_3_prefixes.simps)
  next
    case (Suc k)
    with Cons.prems have k: "k < length ps" by simp
    show ?thesis
      using Cons.IH [OF k] Suc
      by (simp add: level_3_prefixes_Cons del: level_3_prefixes.simps)
  qed
qed

text \<open>
  Claim C7. For every non-empty candidate list of length K, \<open>level_3\<close> returns one entry
  per search prefix (three), each holding exactly K inner lists; the inner list at
  \<open>[i][j]\<close> is the answer to the query \<open>prefix i + keyword j\<close>, and it is the empty list
  when that query returns no papers or raises (queries that return nothing or raise are
  not omitted). One candidate whose three queries return no papers gives three
  one-element lists of an empty list.
\<close>

theorem level_3_shape:
  assumes "results \<noteq> []"
  shows "length (fst (level_3 env results w)) = 3
    \<and> (\<forall>i < 3. length (fst (level_3 env results w) ! i) = length results)
    \<and> (\<forall>i < 3. \<forall>j < length results. \<exists>w'.
          fst (level_3 env results w) ! i ! j =
            (if snd (results ! j) = [] then []
             else case fst (get_info env (prefix_list ! i @ snd (results ! j)) w') of
                    Inr result \<Rightarrow> result | Inl e \<Rightarrow> []))
    \<and> (\<forall>i < 3. \<forall>j < length results.
          (\<forall>w'. case fst (get_info env (prefix_list ! i @ snd (results ! j)) w') of
                   Inr result \<Rightarrow> result = [] | Inl e \<Rightarrow> True)
          \<longrightarrow> fst (level_3 env results w) ! i ! j = [])
    \<and> (length results = 1 \<and> (\<forall>query w'. fst (get_info env query w') = Inr [])
          \<longrightarrow> fst (level_3 env results w) = [[[]], [[]], [[]]])"
proof -
  let ?out = "fst (level_3 env results w)"
  have out: "?out = fst (level_3_prefixes env prefix_list results w)"
    using assms by (simp add: level_3_def)
  have three: "length prefix_list = 3"
    by (simp add: prefix_list_def)
  have len: "length ?out = 3"
    by (simp only: out level_3_prefixes_length three)
  have row: "\<exists>w'. ?out ! i = fst (level_3_keywords env (prefix_list ! i) results w')"
    if "i < 3" for i
    using that level_3_prefixes_nth [of i prefix_list env results w]
    by (simp only: out three)
  have rows: "length (?out ! i) = length results" if "i < 3" for i
    using row [OF that] by (auto simp: level_3_keywords_length)
  have cell: "\<exists>w'. ?out ! i ! j =
            (if snd (results ! j) = [] then []
             else case fst (get_info env (prefix_list ! i @ snd (results ! j)) w') of
                    Inr result \<Rightarrow> result | Inl e \<Rightarrow> [])"
    if "i < 3" "j < length results" for i j
  proof -
    from row [OF that(1)] obtain w1 where
      "?out ! i = fst (level_3_keywords env (prefix_list ! i) results w1)" by blast
    with level_3_keywords_nth [OF that(2), of env "prefix_list ! i" w1]
    show ?thesis by simp
  qed
  have empty: "?out ! i ! j = []"
    if "i < 3" "j < length results"
      and none: "\<forall>w'. case fst (get_info env (prefix_list ! i @ snd (results ! j)) w') of
                   Inr result \<Rightarrow> result = [] | Inl e \<Rightarrow> True" for i j
  proof -
    from cell [OF that(1,2)] obtain w' where c: "?out ! i ! j =
            (if snd (results ! j) = [] then []
             else case fst (get_info env (prefix_list ! i @ snd (results ! j)) w') of
                    Inr result \<Rightarrow> result | Inl e \<Rightarrow> [])" by blast
    from none have "case fst (get_info env (prefix_list ! i @ snd (results ! j)) w') of
                   Inr result \<Rightarrow> result = [] | Inl e \<Rightarrow> True" by blast
    with c show ?thesis by (auto split: sum.splits)
  qed
  have scenario: "?out = [[[]], [[]], [[]]]"
    if one: "length results = 1" and zero: "\<forall>query w'. fst (get_info env query w') = Inr []"
  proof -
    have e: "?out ! i = [[]]" if "i < 3" for i
    proof -
      have "length (?out ! i) = 1" using rows [OF that] one by simp
      moreover have "?out ! i ! 0 = []"
        using empty [OF that, of 0] one zero by simp
      ultimately show ?thesis
        by (cases "?out ! i") auto
    qed
    have "?out = [?out ! 0, ?out ! 1, ?out ! 2]"
      using len by (rule list_of_three)
    also have "\<dots> = [[[]], [[]], [[]]]"
      using e [of 0] e [of 1] e [of 2] by simp
    finally show ?thesis .
  qed
  show ?thesis
    using len rows cell empty scenario by blast
qed

theorem level_3_shape_witness:
  "[(9 / 10, ''XGBoost'')] \<noteq> []
   \<and> fst (level_3 web_offline [(9 / 10, ''XGBoost'')] ()) = [[[]], [[]], [[]]]
   \<and> length (fst (level_3 web_offline [(9 / 10, ''XGBoost'')] ())) = 3"
proof -
  have h: "[(9 / 10 :: real, ''XGBoost'')] \<noteq> []" by simp
  have z: "\<forall>query w'. fst (get_info web_offline query w') = Inr []"
    by (simp add: web_offline_def)
  show ?thesis
    using level_3_shape [OF h, of web_offline "()"] z by simp
qed

section \<open>Level 4: the attack-type classifier\<close>

lemma re_search_append: "re_match_here p s \<Longrightarrow> re_search p (pre @ s)"
proof (induction pre)
  case Nil
  then show ?case by (cases s) simp_all
next
  case (Cons c pre)
  then show ?case by simp
qed

lemma membership_inference_matches:
  "re_search (lit ''membership'' @ [WsStar] @ lit ''inference'')
     (pre @ ''membership inference'' @ post)"
  by (rule re_search_append) (simp add: lit_def isspace_def)

lemma poisoning_matches:
  "re_search (lit ''poisoning'') (pre @ ''data poisoning'' @ post)"
proof -
  have "re_search (lit ''poisoning'') ((pre @ ''data '') @ ''poisoning'' @ post)"
    by (rule re_search_append) (simp add: lit_def)
  then show ?thesis by simp
qed

text \<open>
  Claim C8. \<open>__find_attack_type\<close> tries the inference-time patterns first and the
  training-time patterns only when none of them matches: a text matching an
  inference-time pattern is labelled 0 (also when it matches a training-time pattern),
  a text matching only a training-time pattern is labelled 1, and a text matching
  neither is labelled -1. A text containing "membership inference" is labelled 0; a
  text containing "data poisoning" and no inference-time pattern is labelled 1.
\<close>

theorem find_attack_type_first_match:
  "(regex_search text pattern_inference_time \<longrightarrow> find_attack_type text = 0)
   \<and> (\<not> regex_search text pattern_inference_time \<and> regex_search text pattern_training_time
        \<longrightarrow> find_attack_type text = 1)
   \<and> (\<not> regex_search text pattern_inference_time \<and> \<not> regex_search text pattern_training_time
        \<longrightarrow> find_attack_type text = - 1)
   \<and> find_attack_type (pre @ ''membership inference'' @ post) = 0
   \<and> (\<not> regex_search (pre @ ''data poisoning'' @ post) pattern_inference_time
        \<longrightarrow> find_attack_type (pre @ ''data poisoning'' @ post) = 1)"
proof -
  have inf_empty: "\<not> regex_search [] pattern_inference_time"
    by (simp add: pattern_inference_time_def lit_def)
  have tr_empty: "\<not> regex_search [] pattern_training_time"
    by (simp add: pattern_training_time_def lit_def)
  have a: "find_attack_type text = 0" if "regex_search text pattern_inference_time"
    using that inf_empty by (auto simp: find_attack_type_def)
  have b: "find_attack_type text = 1"
    if "\<not> regex_search text pattern_inference_time" "regex_search text pattern_training_time"
    using that tr_empty by (auto simp: find_attack_type_def)
  have c: "find_attack_type text = - 1"
    if "\<not> regex_search text pattern_inference_time" "\<not> regex_search text pattern_training_time"
    using that by (simp add: find_attack_type_def)
  have d: "regex_search (pre @ ''membership inference'' @ post) pattern_inference_time"
    using membership_inference_matches [of pre post]
    by (simp add: pattern_inference_time_def)
  have e: "regex_search (pre @ ''data poisoning'' @ post) pattern_training_time"
    using poisoning_matches [of pre post]
    by (simp add: pattern_training_time_def)
  have d': "find_attack_type (pre @ ''membership inference'' @ post) = 0"
    using d by (simp add: find_attack_type_def)
  have e': "find_attack_type (pre @ ''data poisoning'' @ post) = 1"
    if "\<not> regex_search (pre @ ''data poisoning'' @ post) pattern_inference_time"
    using e that by (simp add: find_attack_type_def)
  show ?thesis using a b c d' e' by blast
qed

theorem find_attack_type_first_match_witness:
  "regex_search ''evasion and poisoning'' pattern_inference_time
   \<and> regex_search ''evasion and poisoning'' pattern_training_time
   \<and> find_attack_type ''evasion and poisoning'' = 0
   \<and> \<not> regex_search ''a data poisoning attack'' pattern_inference_time
   \<and> find_attack_type ''a data poisoning attack'' = 1
   \<and> \<not> regex_search ''nothing of note'' pattern_inference_time
   \<and> \<not> regex_search ''nothing of note'' pattern_training_time
   \<and> find_attack_type ''nothing of note'' = - 1
   \<and> find_attack_type ''on Membership   Inference attacks'' = 0"
proof -
  have h1: "regex_search ''evasion and poisoning'' pattern_inference_time" by code_simp
  have h2: "regex_search ''evasion and poisoning'' pattern_training_time" by code_simp
  have h3: "\<not> regex_search ''a data poisoning attack'' pattern_inference_time" by code_simp
  have h4: "\<not> regex_search ''nothing of note'' pattern_inference_time" by code_simp
  have h5: "\<not> regex_search ''nothing of note'' pattern_training_time" by code_simp
  have h6: "find_attack_type ''on Membership   Inference attacks'' = 0" by code_simp
  have p: "''a data poisoning attack'' = ''a '' @ ''data poisoning'' @ '' attack''" by simp
  show ?thesis
    using find_attack_type_first_match [of "''evasion and poisoning''"]
      find_attack_type_first_match [of "''nothing of note''"]
      find_attack_type_first_match [of _ "''a ''" "'' attack''"]
      h1 h2 h3 h4 h5 h6
    by simp
qed

section \<open>Level 4: rejected papers\<close>

text \<open>When the link check fails, or the driver times out or loses its session,
  \<open>get_page\<close> returns the string \<open>"None"\<close>, which matches no attack pattern.\<close>

lemma get_page_fails:
  assumes "fst (requests_get env url w) = Inr 404
           \<or> fst (requests_get env url w) = Inl RequestException
           \<or> (fst (check_link env url w) = Inr True
               \<and> (fst (driver_get env url (snd (check_link env url w))) = Inl TimeoutException
                  \<or> fst (driver_get env url (snd (check_link env url w))) = Inl WebDriverException))"
  shows "fst (get_page env url w) = Inr ''None''"
  using assms
  by (auto simp: get_page_def check_link_def split: prod.splits sum.splits exn.splits bool.splits)

text \<open>An exception of the HTTP request other than a \<open>RequestException\<close> leaves
  \<open>get_page\<close> as it is.\<close>

lemma get_page_raises:
  assumes "fst (requests_get env url w) = Inl e" "e \<noteq> RequestException"
  shows "fst (get_page env url w) = Inl e"
  using assms
  by (auto simp: get_page_def check_link_def split: prod.splits sum.splits exn.splits)

lemma find_attack_type_None: "find_attack_type ''None'' = - 1"
  by code_simp

text \<open>One iteration of each loop, read through \<open>fst\<close> and \<open>snd\<close>.\<close>

lemma level_4_papers_Cons:
  "fst (level_4_papers env (paper_info # papers) w) =
     (if length paper_info < 3 then fst (level_4_papers env papers w)
      else case fst (get_page env (paper_info ! 2) w) of
             Inl e \<Rightarrow> fst (level_4_papers env papers (snd (get_page env (paper_info ! 2) w)))
           | Inr page \<Rightarrow>
               (let rest = fst (level_4_papers env papers (snd (get_page env (paper_info ! 2) w)))
                in if find_attack_type page = 0 \<or> find_attack_type page = 1
                   then ((paper_info
                           @ [''Attack Type '' @ (if find_attack_type page = 0 then ''0'' else ''1'')])
                          # fst rest, snd rest)
                   else (fst rest, paper_info # snd rest)))"
  by (simp add: Let_def split: prod.splits sum.splits)

lemma level_4_keywords_Cons:
  "fst (level_4_keywords env (papers # row) w) =
     (fst (fst (level_4_papers env papers w))
        # fst (fst (level_4_keywords env row (snd (level_4_papers env papers w)))),
      snd (fst (level_4_papers env papers w))
        # snd (fst (level_4_keywords env row (snd (level_4_papers env papers w)))))"
  by (simp split: prod.splits)

lemma level_4_prefixes_Cons:
  "fst (level_4_prefixes env (row # rows) w) =
     (fst (fst (level_4_keywords env row w))
        # fst (fst (level_4_prefixes env rows (snd (level_4_keywords env row w)))),
      snd (fst (level_4_keywords env row w))
        # snd (fst (level_4_prefixes env rows (snd (level_4_keywords env row w)))))"
  by (simp split: prod.splits)

text \<open>Whatever the papers loop keeps or rejects has at least three fields.\<close>

lemma level_4_papers_fields:
  "(\<forall>p \<in> set (fst (fst (level_4_papers env papers w))). 3 \<le> length p)
   \<and> (\<forall>p \<in> set (snd (fst (level_4_papers env papers w))). 3 \<le> length p)"
proof (induction papers arbitrary: w)
  case Nil
  then show ?case by simp
next
  case (Cons p papers)
  then show ?case
    by (simp add: level_4_papers_Cons Let_def split: sum.splits del: level_4_papers.simps)
qed

text \<open>The loops over \<open>j\<close> and \<open>i\<close> keep every position.\<close>

lemma level_4_keywords_length:
  "length (fst (fst (level_4_keywords env row w))) = length row
   \<and> length (snd (fst (level_4_keywords env row w))) = length row"
proof (induction row arbitrary: w)
  case Nil
  then show ?case by simp
next
  case (Cons papers row)
  then show ?case by (simp add: level_4_keywords_Cons del: level_4_keywords.simps)
qed

lemma level_4_prefixes_length:
  "length (fst (fst (level_4_prefixes env rows w))) = length rows
   \<and> length (snd (fst (level_4_prefixes env rows w))) = length rows"
proof (induction rows arbitrary: w)
  case Nil
  then show ?case by simp
next
  case (Cons row rows)
  then show ?case by (simp add: level_4_prefixes_Cons del: level_4_prefixes.simps)
qed

lemma level_4_papers_world_Cons:
  "snd (level_4_papers env (paper_info # papers) w) =
     (if length paper_info < 3 then snd (level_4_papers env papers w)
      else snd (level_4_papers env papers (snd (get_page env (paper_info ! 2) w))))"
  by (simp add: Let_def split: prod.splits sum.splits)

lemma level_4_keywords_world_Cons:
  "snd (level_4_keywords env (papers # row) w) =
     snd (level_4_keywords env row (snd (level_4_papers env papers w)))"
  by (simp split: prod.splits)

lemma level_4_prefixes_world_Cons:
  "snd (level_4_prefixes env (row # rows) w) =
     snd (level_4_prefixes env rows (snd (level_4_keywords env row w)))"
  by (simp split: prod.splits)

text \<open>Running the papers loop on a list is running it on a front part and then, from
  the world reached, on the rest.\<close>

lemma level_4_papers_append:
  "fst (level_4_papers env (xs @ ys) w) =
     (fst (fst (level_4_papers env xs w))
        @ fst (fst (level_4_papers env ys (snd (level_4_papers env xs w)))),
      snd (fst (level_4_papers env xs w))
        @ snd (fst (level_4_papers env ys (snd (level_4_papers env xs w)))))"
proof (induction xs arbitrary: w)
  case Nil
  then show ?case by simp
next
  case (Cons p xs)
  show ?case
    by (simp add: level_4_papers_Cons level_4_papers_world_Cons Cons.IH Let_def
             split: sum.splits del: level_4_papers.simps)
qed

text \<open>The \<open>[i][j]\<close> entry of both outputs, for the row and the position written out.\<close>

lemma level_4_keywords_at:
  "fst (fst (level_4_keywords env (row_before @ papers # row_after) w)) ! length row_before
     = fst (fst (level_4_papers env papers (snd (level_4_keywords env row_before w))))
   \<and> snd (fst (level_4_keywords env (row_before @ papers # row_after) w)) ! length row_before
     = snd (fst (level_4_papers env papers (snd (level_4_keywords env row_before w))))"
proof (induction row_before arbitrary: w)
  case Nil
  then show ?case by (simp add: level_4_keywords_Cons del: level_4_keywords.simps(2))
next
  case (Cons x row_before)
  then show ?case
    by (simp add: level_4_keywords_Cons level_4_keywords_world_Cons
             del: level_4_keywords.simps)
qed

lemma level_4_prefixes_at:
  "fst (fst (level_4_prefixes env (rows_before @ row # rows_after) w)) ! length rows_before
     = fst (fst (level_4_keywords env row (snd (level_4_prefixes env rows_before w))))
   \<and> snd (fst (level_4_prefixes env (rows_before @ row # rows_after) w)) ! length rows_before
     = snd (fst (level_4_keywords env row (snd (level_4_prefixes env rows_before w))))"
proof (induction rows_before arbitrary: w)
  case Nil
  then show ?case by (simp add: level_4_prefixes_Cons del: level_4_prefixes.simps(2))
next
  case (Cons x rows_before)
  then show ?case
    by (simp add: level_4_prefixes_Cons level_4_prefixes_world_Cons
             del: level_4_prefixes.simps)
qed

text \<open>A record with fewer than three fields changes nothing: the run is the run on the
  input without it.\<close>

lemma level_4_papers_skip_short:
  "length paper_info < 3 \<Longrightarrow>
   level_4_papers env (papers_before @ paper_info # papers_after) w
     = level_4_papers env (papers_before @ papers_after) w"
proof (induction papers_before arbitrary: w)
  case Nil
  then show ?case by simp
next
  case (Cons p papers_before)
  then show ?case by (simp add: Let_def split: prod.splits sum.splits)
qed

lemma level_4_keywords_cong:
  "(\<And>w'. level_4_papers env papers w' = level_4_papers env papers' w') \<Longrightarrow>
   level_4_keywords env (row_before @ papers # row_after) w
     = level_4_keywords env (row_before @ papers' # row_after) w"
  by (induction row_before arbitrary: w) (simp_all split: prod.splits)

lemma level_4_prefixes_cong:
  "(\<And>w'. level_4_keywords env row w' = level_4_keywords env row' w') \<Longrightarrow>
   level_4_prefixes env (rows_before @ row # rows_after) w
     = level_4_prefixes env (rows_before @ row' # rows_after) w"
  by (induction rows_before arbitrary: w) (simp_all split: prod.splits)

text \<open>The record reached in world \<open>w3\<close>: what the papers loop makes of it.\<close>

lemma level_4_papers_at:
  assumes "w3 = snd (level_4_papers env papers_before w2)"
  shows "fst (level_4_papers env (papers_before @ paper_info # papers_after) w2) =
     (let kept_before = fst (fst (level_4_papers env papers_before w2));
          rejected_before = snd (fst (level_4_papers env papers_before w2))
      in if length paper_info < 3
         then (kept_before @ fst (fst (level_4_papers env papers_after w3)),
               rejected_before @ snd (fst (level_4_papers env papers_after w3)))
         else
           let w4 = snd (get_page env (paper_info ! 2) w3);
               kept_after = fst (fst (level_4_papers env papers_after w4));
               rejected_after = snd (fst (level_4_papers env papers_after w4))
           in case fst (get_page env (paper_info ! 2) w3) of
                Inl e \<Rightarrow> (kept_before @ kept_after, rejected_before @ rejected_after)
              | Inr page \<Rightarrow>
                  if find_attack_type page = 0 \<or> find_attack_type page = 1
                  then (kept_before
                          @ (paper_info @ [''Attack Type ''
                               @ (if find_attack_type page = 0 then ''0'' else ''1'')])
                          # kept_after,
                        rejected_before @ rejected_after)
                  else (kept_before @ kept_after,
                        rejected_before @ paper_info # rejected_after))"
  unfolding assms
  by (simp add: level_4_papers_append level_4_papers_Cons Let_def
           split: sum.splits del: level_4_papers.simps)

text \<open>
  Claim C6 as stated fails. A record with fewer than three fields is dropped: it is in
  neither output of \<open>level_4\<close>, and the rejected structure is empty at its position.
  So is a record whose page fetch raises.
\<close>

theorem level_4_dropped_record_counterexample:
  "level_4 web_offline [[[[''title'', ''abstract'']]]] () = (([[[]]], [[[]]]), ())
   \<and> fst (get_page web_broken ''http://paper'' ()) = Inl OtherException
   \<and> level_4 web_broken [[[[''title'', ''abstract'', ''http://paper'']]]] ()
       = (([[[]]], [[[]]]), ())"
  by code_simp

text \<open>
  Claim C6, amended. In \<open>level_4\<close>, for every paper record of the input nested structure,
  reached by the loops in the world \<open>w3\<close>:
  \<^item> if the record has at least three fields and its page fetch fails by returning the
    string \<open>"None"\<close> (the link check failed, the driver timed out or lost its session), the
    record is treated as non-matching: it is placed into the rejected structure at the same
    \<open>[prefix][keyword]\<close> position, after the records rejected before it, and it adds
    nothing to the attack structure;
  \<^item> if the record has at least three fields and its page fetch raises, the record is
    skipped and adds nothing to either structure;
  \<^item> if the record has fewer than three fields, it is skipped: the run is the run on the
    input without the record.
  Both outputs keep the shape of the input, and every record at that position of either
  output has at least three fields.
\<close>

theorem level_4_record_fate:
  assumes results: "results = rows_before
                      @ (row_before @ (papers_before @ paper_info # papers_after) # row_after)
                      # rows_after"
    and w1: "w1 = snd (level_4_prefixes env rows_before w)"
    and w2: "w2 = snd (level_4_keywords env row_before w1)"
    and w3: "w3 = snd (level_4_papers env papers_before w2)"
    and kept_before: "kept_before = fst (fst (level_4_papers env papers_before w2))"
    and rejected_before: "rejected_before = snd (fst (level_4_papers env papers_before w2))"
    and w4: "w4 = snd (get_page env (paper_info ! 2) w3)"
  shows "(3 \<le> length paper_info \<and> fst (get_page env (paper_info ! 2) w3) = Inr ''None'' \<longrightarrow>
            snd (fst (level_4 env results w)) ! length rows_before ! length row_before
              = rejected_before @ paper_info # snd (fst (level_4_papers env papers_after w4))
          \<and> fst (fst (level_4 env results w)) ! length rows_before ! length row_before
              = kept_before @ fst (fst (level_4_papers env papers_after w4)))
    \<and> (3 \<le> length paper_info \<and> fst (get_page env (paper_info ! 2) w3) = Inl e \<longrightarrow>
            snd (fst (level_4 env results w)) ! length rows_before ! length row_before
              = rejected_before @ snd (fst (level_4_papers env papers_after w4))
          \<and> fst (fst (level_4 env results w)) ! length rows_before ! length row_before
              = kept_before @ fst (fst (level_4_papers env papers_after w4)))
    \<and> (length paper_info < 3 \<longrightarrow>
            level_4 env results w
              = level_4 env (rows_before
                              @ (row_before @ (papers_before @ papers_after) # row_after)
                              # rows_after) w)
    \<and> length (fst (fst (level_4 env results w))) = length results
    \<and> length (snd (fst (level_4 env results w))) = length results
    \<and> length (fst (fst (level_4 env results w)) ! length rows_before)
        = length (results ! length rows_before)
    \<and> length (snd (fst (level_4 env results w)) ! length rows_before)
        = length (results ! length rows_before)
    \<and> (\<forall>p \<in> set (fst (fst (level_4 env results w)) ! length rows_before ! length row_before)
             \<union> set (snd (fst (level_4 env results w)) ! length rows_before ! length row_before).
          3 \<le> length p)"
proof -
  let ?papers = "papers_before @ paper_info # papers_after"
  let ?row = "row_before @ ?papers # row_after"
  have ne: "results \<noteq> []" by (simp add: results)
  have run: "level_4 env results w = level_4_prefixes env (rows_before @ ?row # rows_after) w"
    by (simp add: level_4_def results)
  have row: "fst (fst (level_4 env results w)) ! length rows_before
               = fst (fst (level_4_keywords env ?row w1))"
            "snd (fst (level_4 env results w)) ! length rows_before
               = snd (fst (level_4_keywords env ?row w1))"
    using level_4_prefixes_at [of env rows_before ?row rows_after w]
    by (simp_all add: run w1)
  have cell: "fst (fst (level_4 env results w)) ! length rows_before ! length row_before
                = fst (fst (level_4_papers env ?papers w2))"
             "snd (fst (level_4 env results w)) ! length rows_before ! length row_before
                = snd (fst (level_4_papers env ?papers w2))"
    using level_4_keywords_at [of env row_before ?papers row_after w1]
    by (simp_all add: row w2)
  note at = level_4_papers_at [OF w3, where paper_info = paper_info and papers_after = papers_after]
  have none: "snd (fst (level_4 env results w)) ! length rows_before ! length row_before
              = rejected_before @ paper_info # snd (fst (level_4_papers env papers_after w4))
          \<and> fst (fst (level_4 env results w)) ! length rows_before ! length row_before
              = kept_before @ fst (fst (level_4_papers env papers_after w4))"
    if "3 \<le> length paper_info" "fst (get_page env (paper_info ! 2) w3) = Inr ''None''"
    using that
    by (simp add: cell at Let_def find_attack_type_None kept_before rejected_before w4)
  have raised: "snd (fst (level_4 env results w)) ! length rows_before ! length row_before
              = rejected_before @ snd (fst (level_4_papers env papers_after w4))
          \<and> fst (fst (level_4 env results w)) ! length rows_before ! length row_before
              = kept_before @ fst (fst (level_4_papers env papers_after w4))"
    if "3 \<le> length paper_info" "fst (get_page env (paper_info ! 2) w3) = Inl e"
    using that
    by (simp add: cell at Let_def kept_before rejected_before w4)
  have short: "level_4 env results w
              = level_4 env (rows_before
                              @ (row_before @ (papers_before @ papers_after) # row_after)
                              # rows_after) w"
    if "length paper_info < 3"
  proof -
    have papers: "level_4_papers env ?papers w' = level_4_papers env (papers_before @ papers_after) w'"
      for w'
      using that by (rule level_4_papers_skip_short)
    have rows: "level_4_keywords env ?row w'
          = level_4_keywords env (row_before @ (papers_before @ papers_after) # row_after) w'"
      for w'
      using papers by (rule level_4_keywords_cong)
    have "level_4_prefixes env (rows_before @ ?row # rows_after) w
          = level_4_prefixes env
              (rows_before @ (row_before @ (papers_before @ papers_after) # row_after)
                 # rows_after) w"
      using rows by (rule level_4_prefixes_cong)
    then show ?thesis by (simp add: level_4_def results)
  qed
  have len: "length results = length (rows_before @ ?row # rows_after)"
    by (simp add: results)
  have outer: "length (fst (fst (level_4 env results w))) = length results"
    "length (snd (fst (level_4 env results w))) = length results"
    using level_4_prefixes_length [of env "rows_before @ ?row # rows_after" w]
    by (simp_all only: run len)
  have nth: "results ! length rows_before = ?row"
    by (simp add: results)
  have inner: "length (fst (fst (level_4 env results w)) ! length rows_before)
                 = length (results ! length rows_before)"
    "length (snd (fst (level_4 env results w)) ! length rows_before)
                 = length (results ! length rows_before)"
    using level_4_keywords_length [of env ?row w1]
    by (simp_all add: row nth)
  have fields: "\<forall>p \<in> set (fst (fst (level_4 env results w)) ! length rows_before ! length row_before)
             \<union> set (snd (fst (level_4 env results w)) ! length rows_before ! length row_before).
          3 \<le> length p"
    using level_4_papers_fields [of env ?papers w2] by (auto simp: cell)
  show ?thesis using none raised short outer inner fields by blast
qed

theorem level_4_record_fate_witness:
  "3 \<le> length [''t2'', ''a2'', ''u2'']
   \<and> fst (get_page web_rate_limited ''u2'' 0) = Inr ''an evasion attack''
   \<and> fst (get_page web_rate_limited ''u2'' 1) = Inr ''None''
   \<and> snd (fst (level_4 web_rate_limited
                 [[[[''t1'', ''a1'', ''u1''], [''t2'', ''a2'', ''u2'']]]] 0)) ! 0 ! 0
       = [[''t2'', ''a2'', ''u2'']]
   \<and> fst (fst (level_4 web_rate_limited
                 [[[[''t1'', ''a1'', ''u1''], [''t2'', ''a2'', ''u2'']]]] 0)) ! 0 ! 0
       = [[''t1'', ''a1'', ''u1'', ''Attack Type 0'']]
   \<and> fst (get_page web_broken ''http://paper'' ()) = Inl OtherException
   \<and> snd (fst (level_4 web_broken [[[[''title'', ''abstract'', ''http://paper'']]]] ())) ! 0 ! 0
       = []
   \<and> fst (fst (level_4 web_broken [[[[''title'', ''abstract'', ''http://paper'']]]] ())) ! 0 ! 0
       = []
   \<and> length [''title'', ''abstract''] < 3
   \<and> level_4 web_offline [[[[''title'', ''abstract'']]]] () = level_4 web_offline [[[]]] ()"
proof -
  let ?p1 = "[''t1'', ''a1'', ''u1'']"
  let ?p2 = "[''t2'', ''a2'', ''u2'']"
  let ?p = "[''title'', ''abstract'', ''http://paper'']"
  let ?s = "[''title'', ''abstract'']"
  have ok: "fst (get_page web_rate_limited ''u2'' 0) = Inr ''an evasion attack''"
    by code_simp
  have r: "[[[?p1, ?p2]]] = [] @ ([] @ ([?p1] @ ?p2 # []) # []) # []" by simp
  have a1: "(0::nat) = snd (level_4_prefixes web_rate_limited [] 0)" by simp
  have a2: "(0::nat) = snd (level_4_keywords web_rate_limited [] 0)" by simp
  have a3: "(1::nat) = snd (level_4_papers web_rate_limited [?p1] 0)" by code_simp
  have a4: "[[''t1'', ''a1'', ''u1'', ''Attack Type 0'']]
              = fst (fst (level_4_papers web_rate_limited [?p1] 0))" by code_simp
  have a5: "[] = snd (fst (level_4_papers web_rate_limited [?p1] 0))" by code_simp
  have a6: "(2::nat) = snd (get_page web_rate_limited (?p2 ! 2) 1)" by code_simp
  have h: "fst (get_page web_rate_limited (?p2 ! 2) 1) = Inr ''None''" by code_simp
  have after: "level_4_papers web_rate_limited [] (2::nat) = (([], []), 2)" by simp
  note limited = level_4_record_fate [OF r a1 a2 a3 a4 a5 a6]
  have rb: "[[[?p]]] = [] @ ([] @ ([] @ ?p # []) # []) # []" by simp
  have b1: "() = snd (level_4_prefixes web_broken [] ())" by simp
  have b2: "() = snd (level_4_keywords web_broken [] ())" by simp
  have b3: "() = snd (level_4_papers web_broken [] ())" by simp
  have b4: "[] = fst (fst (level_4_papers web_broken [] ()))" by simp
  have b5: "[] = snd (fst (level_4_papers web_broken [] ()))" by simp
  have b6: "() = snd (get_page web_broken (?p ! 2) ())" by simp
  have hb: "fst (get_page web_broken (?p ! 2) ()) = Inl OtherException" by code_simp
  note broken = level_4_record_fate [OF rb b1 b2 b3 b4 b5 b6, where e = OtherException]
  have rs: "[[[?s]]] = [] @ ([] @ ([] @ ?s # []) # []) # []" by simp
  have c1: "() = snd (level_4_prefixes web_offline [] ())" by simp
  have c2: "() = snd (level_4_keywords web_offline [] ())" by simp
  have c3: "() = snd (level_4_papers web_offline [] ())" by simp
  have c4: "[] = fst (fst (level_4_papers web_offline [] ()))" by simp
  have c5: "[] = snd (fst (level_4_papers web_offline [] ()))" by simp
  have c6: "() = snd (get_page web_offline (?s ! 2) ())" by simp
  note short = level_4_record_fate [OF rs c1 c2 c3 c4 c5 c6]
  show ?thesis
    using limited broken short ok h hb after
    by simp
qed

section \<open>Level 1: candidate extraction\<close>

lemma set_sort_reverse: "set (sort_reverse xs) = set xs"
  by (simp add: sort_reverse_def)

lemma sort_reverse_descending: "sorted_wrt (\<lambda>a b. a \<ge> b) (sort_reverse xs)"
proof -
  have "sorted_wrt (\<le>) (sort (rev xs))" by simp
  then show ?thesis
    by (simp add: sort_reverse_def sorted_wrt_rev)
qed

text \<open>\<open>check_presence\<close> on a text and a list of \<open>(score, text)\<close> tuples is an exact match
  on the text.\<close>

lemma check_presence_text: "check_presence (PyStr text) kept \<longleftrightarrow> text \<in> snd ` set kept"
  by (induction kept) auto

lemma remove_duplicates_set: "set (remove_duplicates kept answer) \<subseteq> set kept \<union> set answer"
proof (induction answer arbitrary: kept)
  case Nil
  then show ?case by simp
next
  case (Cons a answer)
  show ?case
    using Cons.IH [of kept] Cons.IH [of "kept @ [a]"] by auto
qed

lemma remove_duplicates_texts:
  "snd ` set (remove_duplicates kept answer) = snd ` set kept \<union> snd ` set answer"
  by (induction answer arbitrary: kept) (auto simp: check_presence_text)

lemma remove_duplicates_distinct:
  "distinct (map snd kept) \<Longrightarrow> distinct (map snd (remove_duplicates kept answer))"
  by (induction answer arbitrary: kept) (auto simp: check_presence_text)

lemma remove_duplicates_descending:
  "sorted_wrt (\<lambda>a b. a \<ge> b) (kept @ answer) \<Longrightarrow>
   sorted_wrt (\<lambda>a b. a \<ge> b) (remove_duplicates kept answer)"
proof (induction answer arbitrary: kept)
  case Nil
  then show ?case by simp
next
  case (Cons a answer)
  show ?case
  proof (cases "check_presence (PyStr (snd a)) kept")
    case True
    from Cons.prems have "sorted_wrt (\<lambda>a b. a \<ge> b) (kept @ answer)"
      by (auto simp: sorted_wrt_append)
    with True Cons.IH show ?thesis by simp
  next
    case False
    from Cons.prems have "sorted_wrt (\<lambda>a b. a \<ge> b) ((kept @ [a]) @ answer)" by simp
    with False Cons.IH show ?thesis by simp
  qed
qed

lemma remove_duplicates_keeps: "set kept \<subseteq> set (remove_duplicates kept answer)"
proof (induction answer arbitrary: kept)
  case Nil
  then show ?case by simp
next
  case (Cons a answer)
  show ?case
    using Cons.IH [of kept] Cons.IH [of "kept @ [a]"] by auto
qed

text \<open>On a list in descending order, every answer is represented in the result by an
  answer with the same text that is ranked at least as high.\<close>

lemma remove_duplicates_keeps_best:
  "sorted_wrt (\<lambda>a b. a \<ge> b) (kept @ answer) \<Longrightarrow> a \<in> set kept \<union> set answer \<Longrightarrow>
   \<exists>b \<in> set (remove_duplicates kept answer). snd b = snd a \<and> b \<ge> a"
proof (induction answer arbitrary: kept)
  case Nil
  then show ?case by auto
next
  case (Cons x answer)
  show ?case
  proof (cases "check_presence (PyStr (snd x)) kept")
    case True
    from Cons.prems(1) have sorted: "sorted_wrt (\<lambda>a b. a \<ge> b) (kept @ answer)"
      by (auto simp: sorted_wrt_append)
    show ?thesis
    proof (cases "a = x")
      case same: True
      from True obtain k where k: "k \<in> set kept" "snd k = snd x"
        by (auto simp: check_presence_text)
      from Cons.prems(1) k(1) have "k \<ge> x"
        by (auto simp: sorted_wrt_append)
      moreover from k(1) have "k \<in> set (remove_duplicates kept answer)"
        using remove_duplicates_keeps [of kept answer] by blast
      ultimately show ?thesis using True k(2) same by auto
    next
      case False
      with Cons.prems(2) have "a \<in> set kept \<union> set answer" by auto
      from Cons.IH [OF sorted this] True show ?thesis by simp
    qed
  next
    case False
    from Cons.prems(1) have sorted: "sorted_wrt (\<lambda>a b. a \<ge> b) ((kept @ [x]) @ answer)"
      by simp
    from Cons.prems(2) have "a \<in> set (kept @ [x]) \<union> set answer" by auto
    from Cons.IH [OF sorted this] False show ?thesis by simp
  qed
qed

text \<open>The value \<open>level_1\<close> returns, in terms of the pooled answers.\<close>

lemma level_1_returns:
  "fst (level_1 nlp pages self) =
     (if pages = [] then []
      else case sort_reverse (pooled_answers nlp pages) of
             [] \<Rightarrow> [] | a0 # rest \<Rightarrow> remove_duplicates [a0] rest)"
  by (simp add: level_1_def Let_def split: list.splits)

lemma level_1_state:
  "pages \<noteq> [] \<Longrightarrow>
   snd (level_1 nlp pages self) =
     self\<lparr>additional_results := analyse_pages nlp pages QUESTION_4,
          initial_results := fst (level_1 nlp pages self)\<rparr>"
  by (simp add: level_1_def Let_def split: list.splits)

lemma level_1_initial_results:
  "initial_results (snd (level_1 nlp pages self)) =
     (if pages = [] then initial_results self else fst (level_1 nlp pages self))"
  by (cases "pages = []") (simp add: level_1_def, simp add: level_1_state)

lemma level_1_subset: "set (fst (level_1 nlp pages self)) \<subseteq> set (pooled_answers nlp pages)"
proof (cases "sort_reverse (pooled_answers nlp pages)")
  case Nil
  then show ?thesis by (simp add: level_1_returns)
next
  case (Cons a0 rest)
  have "set (remove_duplicates [a0] rest) \<subseteq> set (a0 # rest)"
    using remove_duplicates_set [of "[a0]" rest] by simp
  also have "\<dots> = set (pooled_answers nlp pages)"
    using Cons set_sort_reverse [of "pooled_answers nlp pages"] by simp
  finally show ?thesis using Cons by (simp add: level_1_returns)
qed

lemma level_1_keeps_best:
  assumes "a \<in> set (pooled_answers nlp pages)"
  shows "\<exists>b \<in> set (fst (level_1 nlp pages self)). snd b = snd a \<and> fst a \<le> fst b"
proof -
  have ne: "pages \<noteq> []"
    using assms by (auto simp: pooled_answers_def analyse_pages_def)
  show ?thesis
  proof (cases "sort_reverse (pooled_answers nlp pages)")
    case Nil
    then have "set (pooled_answers nlp pages) = {}"
      using set_sort_reverse [of "pooled_answers nlp pages"] by simp
    with assms show ?thesis by simp
  next
    case (Cons a0 rest)
    have sorted: "sorted_wrt (\<lambda>a b. a \<ge> b) ([a0] @ rest)"
      using sort_reverse_descending [of "pooled_answers nlp pages"] Cons by simp
    have "a \<in> set [a0] \<union> set rest"
      using assms Cons set_sort_reverse [of "pooled_answers nlp pages"] by auto
    from remove_duplicates_keeps_best [OF sorted this] obtain b where
      b: "b \<in> set (remove_duplicates [a0] rest)" "snd b = snd a" "b \<ge> a"
      by blast
    from b(3) have "fst a \<le> fst b"
      by (cases a; cases b) (auto simp: less_eq_prod_def)
    with b(1,2) Cons ne show ?thesis
      by (auto simp: level_1_returns)
  qed
qed

lemma level_1_distinct: "distinct (map snd (fst (level_1 nlp pages self)))"
  by (simp add: level_1_returns remove_duplicates_distinct split: list.splits)

lemma level_1_descending: "sorted_wrt (\<lambda>a b. a \<ge> b) (fst (level_1 nlp pages self))"
proof (cases "sort_reverse (pooled_answers nlp pages)")
  case Nil
  then show ?thesis by (simp add: level_1_returns)
next
  case (Cons a0 rest)
  have "sorted_wrt (\<lambda>a b. a \<ge> b) ([a0] @ rest)"
    using sort_reverse_descending [of "pooled_answers nlp pages"] Cons by simp
  then have "sorted_wrt (\<lambda>a b. a \<ge> b) (remove_duplicates [a0] rest)"
    by (rule remove_duplicates_descending)
  then show ?thesis using Cons by (simp add: level_1_returns)
qed

text \<open>What \<open>analyse_pages\<close> keeps.\<close>

lemma confidence_floor_above: "1 / 100 < confidence_floor"
  by (simp add: confidence_floor_def)

lemma analyse_paragraphs_scores:
  "\<forall>a \<in> set (analyse_paragraphs nlp question pages). fst a > confidence_floor"
  by (induction pages) (auto split: nlp_result.splits)

lemma analyse_pages_scores: "\<forall>a \<in> set (analyse_pages nlp pages question). fst a > confidence_floor"
  using analyse_paragraphs_scores [of nlp question pages]
  by (simp add: analyse_pages_def set_sort_reverse)

lemma analyse_paragraphs_cong:
  "(\<forall>p \<in> set pages. nlp' question p = nlp question p) \<Longrightarrow>
   analyse_paragraphs nlp' question pages = analyse_paragraphs nlp question pages"
  by (induction pages) (auto split: nlp_result.splits)

lemma analyse_pages_cong:
  "(\<forall>p \<in> set pages. nlp' question p = nlp question p) \<Longrightarrow>
   analyse_pages nlp' pages question = analyse_pages nlp pages question"
  using analyse_paragraphs_cong [of pages nlp' question nlp]
  by (simp add: analyse_pages_def)

lemma pooled_answers_scores: "\<forall>a \<in> set (pooled_answers nlp pages). fst a > confidence_floor"
  using analyse_pages_scores [of nlp pages QUESTION_1] analyse_pages_scores [of nlp pages QUESTION_2]
    analyse_pages_scores [of nlp pages QUESTION_3]
  by (auto simp: pooled_answers_def)

lemma analyse_paragraphs_keeps:
  assumes "p \<in> set pages" "p \<noteq> []" "strip p \<noteq> []"
    and "nlp question p = NlpAnswer score answer" "score > confidence_floor"
  shows "(score, replace_char (CHR 0x0A) (CHR '' '') (strip answer))
           \<in> set (analyse_paragraphs nlp question pages)"
  using assms(1)
proof (induction pages)
  case Nil
  then show ?case by simp
next
  case (Cons q pages)
  show ?case
  proof (cases "q = p")
    case True
    then show ?thesis using assms(2-5) by simp
  next
    case False
    with Cons have "(score, replace_char (CHR 0x0A) (CHR '' '') (strip answer))
           \<in> set (analyse_paragraphs nlp question pages)" by simp
    then show ?thesis by (simp split: nlp_result.splits)
  qed
qed

text \<open>
  Claim C1 as stated fails: the duplicate test is not substring containment. The second
  answer is a substring of the first, which is ranked higher and kept, and is kept too.
\<close>

theorem level_1_substring_counterexample:
  "fst (level_1 nlp_xgboost [''p1'', ''p2''] new_analyser) =
     [(9 / 10, ''XGBoost classifier''), (8 / 10, ''XGBoost'')]
   \<and> str_contains ''XGBoost'' ''XGBoost classifier''"
  by code_simp

text \<open>
  Claim C1, amended. For every list of \<open>(confidence, text)\<close> answers processed by the
  merge step of \<open>level_1\<close>, the deduplication is by exact equality of the text: a later
  (lower-ranked) answer is rejected exactly when its text equals the text of some
  answer already kept. So no two elements of \<open>initial_results\<close> have the same text, and
  every text among the pooled answers is the text of one element of \<open>initial_results\<close>.
\<close>

theorem level_1_exact_dedup:
  "(check_presence (PyStr text) kept \<longleftrightarrow> text \<in> snd ` set kept)
   \<and> remove_duplicates kept (a # answer) =
       (if snd a \<in> snd ` set kept then remove_duplicates kept answer
        else remove_duplicates (kept @ [a]) answer)
   \<and> distinct (map snd (fst (level_1 nlp pages self)))
   \<and> snd ` set (fst (level_1 nlp pages self)) = snd ` set (pooled_answers nlp pages)"
proof -
  have texts: "snd ` set (fst (level_1 nlp pages self)) = snd ` set (pooled_answers nlp pages)"
  proof (cases "pages = []")
    case True
    then show ?thesis
      by (simp add: level_1_returns pooled_answers_def analyse_pages_def)
  next
    case False
    show ?thesis
    proof (cases "sort_reverse (pooled_answers nlp pages)")
      case Nil
      then have "set (pooled_answers nlp pages) = {}"
        using set_sort_reverse [of "pooled_answers nlp pages"] by simp
      with Nil False show ?thesis by (simp add: level_1_returns)
    next
      case (Cons a0 rest)
      have "snd ` set (remove_duplicates [a0] rest) = snd ` set (a0 # rest)"
        by (simp add: remove_duplicates_texts)
      also have "set (a0 # rest) = set (pooled_answers nlp pages)"
        using Cons set_sort_reverse [of "pooled_answers nlp pages"] by simp
      finally show ?thesis using Cons False by (simp add: level_1_returns)
    qed
  qed
  show ?thesis
    using texts level_1_distinct [of nlp pages self] check_presence_text [of "text" kept]
      check_presence_text [of "snd a" kept]
    by simp
qed

text \<open>
  Claim C5 as stated fails: two answers of equal confidence are not kept in the order
  of discovery. The first paragraph yields \<open>a\<close>, the second \<open>b\<close>, with the same score;
  a stable sort on the confidence would keep that order, and \<open>level_1\<close> returns \<open>b\<close>
  before \<open>a\<close>.
\<close>

theorem level_1_tie_order_counterexample:
  "analyse_paragraphs nlp_ties QUESTION_1 [''p1'', ''p2''] = [(1 / 2, ''a''), (1 / 2, ''b'')]
   \<and> spec_stable_order [(1 / 2, ''a''), (1 / 2, ''b'')] = [(1 / 2, ''a''), (1 / 2, ''b'')]
   \<and> fst (level_1 nlp_ties [''p1'', ''p2''] new_analyser) = [(1 / 2, ''b''), (1 / 2, ''a'')]"
  by code_simp

text \<open>
  Claim C5, amended. The ordering of \<open>initial_results\<close> is by confidence, descending,
  and answers of equal confidence are ordered by their text, descending in code-point
  order (the whole \<open>(confidence, text)\<close> tuple is the sort key). Running \<open>level_1\<close> again
  on the same paragraphs with the same responses of the model, from the state the
  first run left, yields the identical \<open>initial_results\<close>.
\<close>

theorem level_1_order:
  "(\<forall>i j. i < j \<and> j < length (fst (level_1 nlp pages self)) \<longrightarrow>
      fst (fst (level_1 nlp pages self) ! i) > fst (fst (level_1 nlp pages self) ! j)
      \<or> (fst (fst (level_1 nlp pages self) ! i) = fst (fst (level_1 nlp pages self) ! j)
         \<and> snd (fst (level_1 nlp pages self) ! i) > snd (fst (level_1 nlp pages self) ! j)))
   \<and> fst (level_1 nlp pages (snd (level_1 nlp pages self))) = fst (level_1 nlp pages self)
   \<and> initial_results (snd (level_1 nlp pages (snd (level_1 nlp pages self))))
       = initial_results (snd (level_1 nlp pages self))"
proof -
  let ?r = "fst (level_1 nlp pages self)"
  have order: "fst (?r ! i) > fst (?r ! j)
      \<or> (fst (?r ! i) = fst (?r ! j) \<and> snd (?r ! i) > snd (?r ! j))"
    if "i < j" "j < length ?r" for i j
  proof -
    have ge: "?r ! i \<ge> ?r ! j"
      using level_1_descending [of nlp pages self] that
      by (simp add: sorted_wrt_iff_nth_less)
    have "snd (?r ! i) \<noteq> snd (?r ! j)"
      using level_1_distinct [of nlp pages self] that
      by (simp add: distinct_conv_nth)
    with ge show ?thesis
      by (cases "?r ! i"; cases "?r ! j") (auto simp: less_eq_prod_def)
  qed
  have again: "fst (level_1 nlp pages (snd (level_1 nlp pages self))) = ?r"
    by (simp add: level_1_returns)
  have twice: "initial_results (snd (level_1 nlp pages (snd (level_1 nlp pages self))))
       = initial_results (snd (level_1 nlp pages self))"
    by (simp add: level_1_initial_results level_1_returns)
  show ?thesis using order again twice by blast
qed

theorem level_1_order_witness:
  "(0::nat) < 1 \<and> 1 < length (fst (level_1 nlp_ties [''p1'', ''p2''] new_analyser))
   \<and> fst (fst (level_1 nlp_ties [''p1'', ''p2''] new_analyser) ! 0)
       = fst (fst (level_1 nlp_ties [''p1'', ''p2''] new_analyser) ! 1)
   \<and> snd (fst (level_1 nlp_ties [''p1'', ''p2''] new_analyser) ! 0)
       > snd (fst (level_1 nlp_ties [''p1'', ''p2''] new_analyser) ! 1)"
proof -
  have r: "fst (level_1 nlp_ties [''p1'', ''p2''] new_analyser) = [(1 / 2, ''b''), (1 / 2, ''a'')]"
    by code_simp
  show ?thesis
    using level_1_order [of nlp_ties "[''p1'', ''p2'']" new_analyser] r
    by simp
qed

text \<open>
  Claim C9. For every paragraph list, every answer \<open>level_1\<close> retains, in
  \<open>initial_results\<close> or in \<open>additional_results\<close>, has a confidence strictly greater than
  the floor \<open>1e-2\<close> (and so than 0.01), and an answer of the model to a non-blank paragraph
  is retained by \<open>analyse_pages\<close> exactly when its confidence is strictly greater than
  that floor.
  \<open>initial_results\<close> pools the answers to the first three questions: each of its
  elements is an answer to one of them, and every answer to any of the three is
  represented in it by an element with the same text and at least its confidence (the
  merge step keeps one answer per text). It does not depend on the model's answers to
  the fourth question, which are placed in \<open>additional_results\<close>. For an empty paragraph list
  nothing is retained and the state is left as it was.
\<close>

theorem level_1_questions:
  "1 / 100 < confidence_floor
   \<and> (\<forall>a \<in> set (fst (level_1 nlp pages self)). fst a > confidence_floor)
   \<and> (p \<in> set pages \<and> p \<noteq> [] \<and> strip p \<noteq> [] \<and> question \<noteq> []
        \<and> nlp question p = NlpAnswer score answer
      \<longrightarrow> ((score, replace_char (CHR 0x0A) (CHR '' '') (strip answer))
             \<in> set (analyse_pages nlp pages question) \<longleftrightarrow> score > confidence_floor))
   \<and> set (fst (level_1 nlp pages self))
        \<subseteq> set (analyse_pages nlp pages QUESTION_1) \<union> set (analyse_pages nlp pages QUESTION_2)
            \<union> set (analyse_pages nlp pages QUESTION_3)
   \<and> (\<forall>a \<in> set (analyse_pages nlp pages QUESTION_1) \<union> set (analyse_pages nlp pages QUESTION_2)
              \<union> set (analyse_pages nlp pages QUESTION_3).
        \<exists>b \<in> set (fst (level_1 nlp pages self)). snd b = snd a \<and> fst a \<le> fst b)
   \<and> ((\<forall>p \<in> set pages. nlp' QUESTION_1 p = nlp QUESTION_1 p
           \<and> nlp' QUESTION_2 p = nlp QUESTION_2 p \<and> nlp' QUESTION_3 p = nlp QUESTION_3 p)
      \<longrightarrow> fst (level_1 nlp' pages self) = fst (level_1 nlp pages self))
   \<and> (pages \<noteq> [] \<longrightarrow>
        initial_results (snd (level_1 nlp pages self)) = fst (level_1 nlp pages self)
        \<and> additional_results (snd (level_1 nlp pages self)) = analyse_pages nlp pages QUESTION_4
        \<and> (\<forall>a \<in> set (additional_results (snd (level_1 nlp pages self))). fst a > confidence_floor))
   \<and> (pages = [] \<longrightarrow> level_1 nlp pages self = ([], self))"
proof -
  have scores: "\<forall>a \<in> set (fst (level_1 nlp pages self)). fst a > confidence_floor"
    using level_1_subset [of nlp pages self] pooled_answers_scores [of nlp pages] by blast
  have keeps: "(score, replace_char (CHR 0x0A) (CHR '' '') (strip answer))
             \<in> set (analyse_pages nlp pages question) \<longleftrightarrow> score > confidence_floor"
    if "p \<in> set pages" "p \<noteq> []" "strip p \<noteq> []" "question \<noteq> []"
      "nlp question p = NlpAnswer score answer"
  proof
    assume "(score, replace_char (CHR 0x0A) (CHR '' '') (strip answer))
             \<in> set (analyse_pages nlp pages question)"
    then show "score > confidence_floor"
      using analyse_pages_scores [of nlp pages question] by fastforce
  next
    assume "score > confidence_floor"
    with that have "(score, replace_char (CHR 0x0A) (CHR '' '') (strip answer))
           \<in> set (analyse_paragraphs nlp question pages)"
      by (intro analyse_paragraphs_keeps [where p = p]) simp_all
    with that show "(score, replace_char (CHR 0x0A) (CHR '' '') (strip answer))
             \<in> set (analyse_pages nlp pages question)"
      by (auto simp: analyse_pages_def set_sort_reverse)
  qed
  have pool: "set (fst (level_1 nlp pages self))
        \<subseteq> set (analyse_pages nlp pages QUESTION_1) \<union> set (analyse_pages nlp pages QUESTION_2)
            \<union> set (analyse_pages nlp pages QUESTION_3)"
    using level_1_subset [of nlp pages self] by (auto simp: pooled_answers_def)
  have all: "\<forall>a \<in> set (analyse_pages nlp pages QUESTION_1) \<union> set (analyse_pages nlp pages QUESTION_2)
              \<union> set (analyse_pages nlp pages QUESTION_3).
        \<exists>b \<in> set (fst (level_1 nlp pages self)). snd b = snd a \<and> fst a \<le> fst b"
  proof
    fix a
    assume "a \<in> set (analyse_pages nlp pages QUESTION_1) \<union> set (analyse_pages nlp pages QUESTION_2)
              \<union> set (analyse_pages nlp pages QUESTION_3)"
    then have "a \<in> set (pooled_answers nlp pages)"
      by (auto simp: pooled_answers_def)
    then show "\<exists>b \<in> set (fst (level_1 nlp pages self)). snd b = snd a \<and> fst a \<le> fst b"
      by (rule level_1_keeps_best)
  qed
  have indep: "fst (level_1 nlp' pages self) = fst (level_1 nlp pages self)"
    if "\<forall>p \<in> set pages. nlp' QUESTION_1 p = nlp QUESTION_1 p
           \<and> nlp' QUESTION_2 p = nlp QUESTION_2 p \<and> nlp' QUESTION_3 p = nlp QUESTION_3 p"
  proof -
    have "analyse_pages nlp' pages QUESTION_1 = analyse_pages nlp pages QUESTION_1"
      "analyse_pages nlp' pages QUESTION_2 = analyse_pages nlp pages QUESTION_2"
      "analyse_pages nlp' pages QUESTION_3 = analyse_pages nlp pages QUESTION_3"
      using that by (simp_all add: analyse_pages_cong)
    then have "pooled_answers nlp' pages = pooled_answers nlp pages"
      by (simp add: pooled_answers_def)
    then show ?thesis by (simp add: level_1_returns)
  qed
  have state: "initial_results (snd (level_1 nlp pages self)) = fst (level_1 nlp pages self)
        \<and> additional_results (snd (level_1 nlp pages self)) = analyse_pages nlp pages QUESTION_4
        \<and> (\<forall>a \<in> set (additional_results (snd (level_1 nlp pages self))). fst a > confidence_floor)"
    if "pages \<noteq> []"
    using that analyse_pages_scores [of nlp pages QUESTION_4]
    by (simp add: level_1_state)
  have none: "level_1 nlp pages self = ([], self)" if "pages = []"
    using that by (simp add: level_1_def)
  show ?thesis using confidence_floor_above scores keeps pool all indep state none by blast
qed

theorem level_1_questions_witness:
  "scenario_pages \<noteq> []
   \<and> fst (level_1 nlp_scenario scenario_pages new_analyser)
       = [(8 / 10, ''convolutional neural network''), (6 / 10, ''classifier''),
          (5 / 10, ''neural network'')]
   \<and> nlp_scenario QUESTION_1 ''Input is a DICOM image.'' = NlpAnswer confidence_floor ''Input''
   \<and> (confidence_floor, ''Input'') \<notin> set (analyse_pages nlp_scenario scenario_pages QUESTION_1)
   \<and> (8 / 10, ''convolutional neural network'')
        \<in> set (analyse_pages nlp_scenario scenario_pages QUESTION_1)
   \<and> (6 / 10, ''classifier'') \<in> set (analyse_pages nlp_scenario scenario_pages QUESTION_2)
   \<and> (5 / 10, ''neural network'') \<in> set (analyse_pages nlp_scenario scenario_pages QUESTION_3)
   \<and> additional_results (snd (level_1 nlp_scenario scenario_pages new_analyser))
       = [(7 / 10, ''DICOM image'')]
   \<and> initial_results (snd (level_1 nlp_scenario scenario_pages new_analyser))
       = [(8 / 10, ''convolutional neural network''), (6 / 10, ''classifier''),
          (5 / 10, ''neural network'')]
   \<and> fst (level_1 nlp_scenario_mute scenario_pages new_analyser)
       = [(8 / 10, ''convolutional neural network''), (6 / 10, ''classifier''),
          (5 / 10, ''neural network'')]"
proof -
  have ne: "scenario_pages \<noteq> []" by (simp add: scenario_pages_def)
  have r: "fst (level_1 nlp_scenario scenario_pages new_analyser)
             = [(8 / 10, ''convolutional neural network''), (6 / 10, ''classifier''),
          (5 / 10, ''neural network'')]"
    by code_simp
  have q4: "analyse_pages nlp_scenario scenario_pages QUESTION_4 = [(7 / 10, ''DICOM image'')]"
    by code_simp
  have low: "nlp_scenario QUESTION_1 ''Input is a DICOM image.'' = NlpAnswer confidence_floor ''Input''"
    by code_simp
  have hp: "''Input is a DICOM image.'' \<in> set scenario_pages
            \<and> ''Input is a DICOM image.'' \<noteq> [] \<and> strip ''Input is a DICOM image.'' \<noteq> []
            \<and> QUESTION_1 \<noteq> []"
    by (simp add: scenario_pages_def QUESTION_1_def strip_def isspace_def)
  have clean: "replace_char (CHR 0x0A) (CHR '' '') (strip ''Input'') = ''Input''"
    by (simp add: replace_char_def strip_def isspace_def)
  have hi: "(8 / 10, ''convolutional neural network'')
        \<in> set (analyse_pages nlp_scenario scenario_pages QUESTION_1)"
    by code_simp
  have q2: "(6 / 10, ''classifier'') \<in> set (analyse_pages nlp_scenario scenario_pages QUESTION_2)"
    by code_simp
  have q3: "(5 / 10, ''neural network'')
              \<in> set (analyse_pages nlp_scenario scenario_pages QUESTION_3)"
    by code_simp
  have agree: "\<forall>p \<in> set scenario_pages.
                 nlp_scenario_mute QUESTION_1 p = nlp_scenario QUESTION_1 p
                 \<and> nlp_scenario_mute QUESTION_2 p = nlp_scenario QUESTION_2 p
                 \<and> nlp_scenario_mute QUESTION_3 p = nlp_scenario QUESTION_3 p"
    by (simp add: nlp_scenario_mute_def QUESTION_1_def QUESTION_2_def QUESTION_3_def
          QUESTION_4_def)
  show ?thesis
    using level_1_questions
            [where nlp = nlp_scenario and pages = scenario_pages and self = new_analyser
               and p = "''Input is a DICOM image.''" and question = QUESTION_1
               and score = confidence_floor and answer = "''Input''"
               and nlp' = nlp_scenario_mute]
      ne r q4 low hp clean hi q2 q3 agree
    by simp
qed

end
